theory Spec2Isabelle
  imports Complex_Main "HOL-Library.Sublist"
begin

section \<open>Python strings\<close>

text \<open>
  A Python \<^verbatim>\<open>str\<close> is a sequence of Unicode code points, and the data this tool reads
  is mostly Chinese text, so a string is modelled as the list of its code points.
  \<open>ascii\<close> turns an ASCII literal into such a list.
\<close>

type_synonym ustr = "nat list"

definition ascii :: "string \<Rightarrow> ustr" where
  "ascii s = map of_char s"

definition comma :: nat where
  "comma = 44"

text \<open>
  The code points that \<^verbatim>\<open>str.strip()\<close> removes and that \<^verbatim>\<open>\s\<close> matches in a
  \<^verbatim>\<open>str\<close> pattern: CPython's \<^verbatim>\<open>Py_UNICODE_ISSPACE\<close>.
\<close>

definition isspace :: "nat \<Rightarrow> bool" where
  "isspace c =
     (c \<in> set [9, 10, 11, 12, 13, 28, 29, 30, 31, 32, 133, 160, 5760,
                8232, 8233, 8239, 8287, 12288]
      \<or> (8192 \<le> c \<and> c \<le> 8202))"

text \<open>\<^verbatim>\<open>s.strip()\<close>\<close>

definition strip :: "ustr \<Rightarrow> ustr" where
  "strip s = rev (dropWhile isspace (rev (dropWhile isspace s)))"

text \<open>
  \<^verbatim>\<open>s.split(sep)\<close> for a separator of one code point: one part more than there are
  separators, empty parts kept.
\<close>

fun split_on :: "nat \<Rightarrow> ustr \<Rightarrow> ustr list" where
  "split_on sep [] = [[]]"
| "split_on sep (c # cs) =
     (let ps = split_on sep cs
      in if c = sep then [] # ps else (c # hd ps) # tl ps)"

section \<open>KMLParser.parse\_coordinates\<close>

text \<open>
  \<^verbatim>\<open>
  def parse_coordinates(self, coord_text):
      if not coord_text or not coord_text.strip():
          return None, None
      try:
          parts = coord_text.strip().split(',')
          if len(parts) >= 2:
              return float(parts[1]), float(parts[0])  # lat, lng
          return None, None
      except (ValueError, IndexError):
          print(...)
          return None, None
  \<close>
  The builtin \<^verbatim>\<open>float\<close> is the parameter \<open>flt\<close>; \<open>None\<close> is its \<^verbatim>\<open>ValueError\<close>,
  which the \<^verbatim>\<open>except\<close> clause turns into the null pair (after printing a warning).
  The argument is \<open>None\<close> when the element has no text.
\<close>

definition parse_coordinates ::
  "(ustr \<Rightarrow> 'f option) \<Rightarrow> ustr option \<Rightarrow> 'f option \<times> 'f option" where
  "parse_coordinates flt coord_text =
     (case coord_text of
        None \<Rightarrow> (None, None)
      | Some s \<Rightarrow>
          if s = [] \<or> strip s = [] then (None, None)
          else
            (let parts = split_on comma (strip s)
             in if 2 \<le> length parts then
                  (case flt (parts ! 1) of
                     None \<Rightarrow> (None, None)
                   | Some lat \<Rightarrow>
                       (case flt (parts ! 0) of
                          None \<Rightarrow> (None, None)
                        | Some lng \<Rightarrow> (Some lat, Some lng)))
                else (None, None)))"

subsection \<open>An instance of the builtin float\<close>

text \<open>
  For concrete runs: \<^verbatim>\<open>float\<close> on signed plain decimal literals (digits with an
  optional fraction), blanks around them ignored. The value is the rational the literal
  denotes, which Python rounds to the nearest double. \<^verbatim>\<open>float\<close> accepts more
  (exponents, underscores, \<^verbatim>\<open>inf\<close>, \<^verbatim>\<open>nan\<close>); the theorems below that hold for every
  \<open>flt\<close> do not depend on this instance.
\<close>

definition isdigit :: "nat \<Rightarrow> bool" where
  "isdigit c = (48 \<le> c \<and> c \<le> 57)"

definition digits_value :: "ustr \<Rightarrow> nat" where
  "digits_value ds = foldl (\<lambda>a c. 10 * a + (c - 48)) 0 ds"

definition unsigned_decimal :: "ustr \<Rightarrow> rat option" where
  "unsigned_decimal s =
     (let ip = takeWhile isdigit s; r = dropWhile isdigit s
      in case r of
           [] \<Rightarrow> if ip = [] then None else Some (of_nat (digits_value ip))
         | c # fp \<Rightarrow>
             if c = 46 \<and> list_all isdigit fp \<and> (ip \<noteq> [] \<or> fp \<noteq> [])
             then Some (of_nat (digits_value ip) + of_nat (digits_value fp) / 10 ^ length fp)
             else None)"

definition decimal_float :: "ustr \<Rightarrow> rat option" where
  "decimal_float s =
     (case strip s of
        [] \<Rightarrow> None
      | c # cs \<Rightarrow>
          if c = 45 then map_option uminus (unsigned_decimal cs)
          else if c = 43 then unsigned_decimal cs
          else unsigned_decimal (c # cs))"

section \<open>KMLParser.clean\_html\_tags\<close>

text \<open>
  \<^verbatim>\<open>
  def clean_html_tags(self, text):
      if not text:
          return ""
      text = re.sub(r'<!\[CDATA\[(.*?)\]\]>', r'\1', text, flags=re.DOTALL)
      text = re.sub(r'<[^>]+>', '', text)
      text = html.unescape(text)
      return re.sub(r'\s+', ' ', text).strip()
  \<close>
  Each \<^verbatim>\<open>re.sub\<close> scans from left to right, replaces every match and resumes after it;
  where the pattern does not match, the code point is copied.
\<close>

definition cdata_open :: ustr where
  "cdata_open = ascii ''<![CDATA[''"

definition cdata_close :: ustr where
  "cdata_close = ascii '']]>''"

definition lt :: nat where
  "lt = 60"

definition gt :: nat where
  "gt = 62"

definition amp :: nat where
  "amp = 38"

definition space :: nat where
  "space = 32"

text \<open>
  The lazy group \<^verbatim>\<open>(.*?)\<close> followed by \<^verbatim>\<open>\]\]>\<close>: the text up to the first close
  marker and the text after that marker, or \<open>None\<close> when there is no close marker
  (with \<^verbatim>\<open>re.DOTALL\<close> the dot matches every code point).
\<close>

fun find_close :: "ustr \<Rightarrow> (ustr \<times> ustr) option" where
  "find_close [] = None"
| "find_close (c # cs) =
     (if prefix cdata_close (c # cs) then Some ([], drop (length cdata_close) (c # cs))
      else (case find_close cs of
              None \<Rightarrow> None
            | Some (inner, rest) \<Rightarrow> Some (c # inner, rest)))"

lemma find_close_length:
  "find_close s = Some (inner, rest) \<Longrightarrow> length rest < length s"
  by (induction s arbitrary: inner) (auto simp: cdata_close_def ascii_def split: if_splits option.splits)

text \<open>\<^verbatim>\<open>re.sub(r'<!\[CDATA\[(.*?)\]\]>', r'\1', text, flags=re.DOTALL)\<close>\<close>

function unwrap_cdata :: "ustr \<Rightarrow> ustr" where
  "unwrap_cdata [] = []"
| "unwrap_cdata (c # cs) =
     (if prefix cdata_open (c # cs) then
        (case find_close (drop (length cdata_open) (c # cs)) of
           Some (inner, rest) \<Rightarrow> inner @ unwrap_cdata rest
         | None \<Rightarrow> c # unwrap_cdata cs)
      else c # unwrap_cdata cs)"
  by pat_completeness auto
termination
proof (relation "measure length")
  fix c cs x2 inner rest
  assume "find_close (drop (length cdata_open) (c # cs)) = Some x2" "(inner, rest) = x2"
  then have "length rest < length (drop (length cdata_open) (c # cs))"
    using find_close_length by metis
  then show "(rest, c # cs) \<in> measure length" by simp
qed auto

text \<open>
  \<^verbatim>\<open>re.sub(r'<[^>]+>', '', text)\<close>: a match starts at a \<^verbatim>\<open><\<close> that is followed by at
  least one code point other than \<^verbatim>\<open>>\<close> and, after the longest run of such, by a
  \<^verbatim>\<open>>\<close>.
\<close>

function strip_tags :: "ustr \<Rightarrow> ustr" where
  "strip_tags [] = []"
| "strip_tags (c # cs) =
     (if c = lt \<and> takeWhile (\<lambda>x. x \<noteq> gt) cs \<noteq> [] \<and> dropWhile (\<lambda>x. x \<noteq> gt) cs \<noteq> []
      then strip_tags (tl (dropWhile (\<lambda>x. x \<noteq> gt) cs))
      else c # strip_tags cs)"
  by pat_completeness auto
termination
proof (relation "measure length")
  fix c :: nat and cs :: ustr
  have "length (tl (dropWhile (\<lambda>x. x \<noteq> gt) cs)) \<le> length cs"
    using length_dropWhile_le [of "\<lambda>x. x \<noteq> gt" cs] by simp
  then show "(tl (dropWhile (\<lambda>x. x \<noteq> gt) cs), c # cs) \<in> measure length" by simp
qed auto

text \<open>
  \<^verbatim>\<open>html.unescape(s)\<close> returns \<^verbatim>\<open>s\<close> itself when it holds no \<^verbatim>\<open>&\<close>, and otherwise
  substitutes the character references by the standard library's table; that
  substitution is the parameter \<open>charref\<close>. This is the value of the call when it
  returns; \<open>unescape_result\<close> below adds the case in which it raises.
\<close>

definition unescape :: "(ustr \<Rightarrow> ustr) \<Rightarrow> ustr \<Rightarrow> ustr" where
  "unescape charref s = (if amp \<in> set s then charref s else s)"

text \<open>\<^verbatim>\<open>re.sub(r'\s+', ' ', text)\<close>\<close>

function collapse_ws :: "ustr \<Rightarrow> ustr" where
  "collapse_ws [] = []"
| "collapse_ws (c # cs) =
     (if isspace c then space # collapse_ws (dropWhile isspace cs)
      else c # collapse_ws cs)"
  by pat_completeness auto
termination
proof (relation "measure length")
  fix c :: nat and cs :: ustr
  show "(dropWhile isspace cs, c # cs) \<in> measure length"
    using length_dropWhile_le [of isspace cs] by simp
qed auto

definition clean_html_tags :: "(ustr \<Rightarrow> ustr) \<Rightarrow> ustr option \<Rightarrow> ustr" where
  "clean_html_tags charref text =
     (case text of
        None \<Rightarrow> []
      | Some s \<Rightarrow>
          if s = [] then []
          else strip (collapse_ws (unescape charref (strip_tags (unwrap_cdata s)))))"

subsection \<open>The exception of html.unescape\<close>

text \<open>
  The exceptions the properties below speak of. \<^verbatim>\<open>ET.ParseError\<close> and
  \<^verbatim>\<open>FileNotFoundError\<close> are the two that the extractor catches.
\<close>

datatype exception = ParseError | FileNotFoundError | ValueError | LookupError

definition hash :: nat where
  "hash = 35"

text \<open>
  \<^verbatim>\<open>html.unescape\<close> converts a decimal reference \<^verbatim>\<open>&#digits\<close> with \<^verbatim>\<open>int(digits)\<close>, and
  \<^verbatim>\<open>int\<close> raises \<^verbatim>\<open>ValueError\<close> for more than \<^verbatim>\<open>sys.int_max_str_digits\<close> digits (4300
  by default; CPython 3.11, and the security releases of 3.7 to 3.10). Every \<^verbatim>\<open>&#\<close>
  followed by a digit starts a match of the reference pattern, whose digits are the
  longest run of \<^verbatim>\<open>[0-9]\<close> after it. A hexadecimal reference has no such limit.
\<close>

definition int_max_str_digits :: nat where
  "int_max_str_digits = 4300"

fun long_decimal_reference :: "ustr \<Rightarrow> bool" where
  "long_decimal_reference [] = False"
| "long_decimal_reference (c # cs) =
     ((c = amp \<and>
       (case cs of
          [] \<Rightarrow> False
        | h # ds \<Rightarrow> h = hash \<and> int_max_str_digits < length (takeWhile isdigit ds)))
      \<or> long_decimal_reference cs)"

text \<open>\<^verbatim>\<open>html.unescape(s)\<close>: the exception it raises, or the value it returns.\<close>

definition unescape_result :: "(ustr \<Rightarrow> ustr) \<Rightarrow> ustr \<Rightarrow> exception + ustr" where
  "unescape_result charref s =
     (if amp \<notin> set s then Inr s
      else if long_decimal_reference s then Inl ValueError
      else Inr (charref s))"

text \<open>
  \<^verbatim>\<open>clean_html_tags\<close> has no \<^verbatim>\<open>try\<close>: the exception of \<^verbatim>\<open>html.unescape\<close> is the
  exception of the call. Where the call returns, it returns \<open>clean_html_tags\<close>.
\<close>

definition clean_html_tags_result :: "(ustr \<Rightarrow> ustr) \<Rightarrow> ustr option \<Rightarrow> exception + ustr" where
  "clean_html_tags_result charref text =
     (case text of
        None \<Rightarrow> Inr []
      | Some s \<Rightarrow>
          if s = [] then Inr []
          else (case unescape_result charref (strip_tags (unwrap_cdata s)) of
                  Inl e \<Rightarrow> Inl e
                | Inr t \<Rightarrow> Inr (strip (collapse_ws t))))"

section \<open>The parsed document\<close>

text \<open>
  An \<^verbatim>\<open>xml.etree.ElementTree\<close> element, as far as the parser reads it: its tag (with the
  namespace in braces), its text (\<open>None\<close> when the element is empty, as in
  \<^verbatim>\<open><name/>\<close>) and its children in document order.
\<close>

datatype element = Element (tag: ustr) (text_of: "ustr option") (children: "element list")

text \<open>A name in the namespace \<^verbatim>\<open>self.ns\<close> binds to the prefix \<^verbatim>\<open>kml\<close>.\<close>

definition kml :: "string \<Rightarrow> ustr" where
  "kml n = ascii ''{http://www.opengis.net/kml/2.2}'' @ ascii n"

text \<open>\<^verbatim>\<open>s.endswith(suf)\<close>\<close>

definition endswith :: "ustr \<Rightarrow> ustr \<Rightarrow> bool" where
  "endswith s suf = suffix suf s"

text \<open>\<^verbatim>\<open>element.find('kml:x', self.ns)\<close>: the first child with that tag.\<close>

definition find_child :: "ustr \<Rightarrow> element \<Rightarrow> element option" where
  "find_child t e = find (\<lambda>c. tag c = t) (children e)"

text \<open>
  \<^verbatim>\<open>element.find('.//kml:x', self.ns)\<close>: the first element with that tag among all
  the elements below \<^verbatim>\<open>element\<close>, in document order.
\<close>

fun descendants :: "element \<Rightarrow> element list" where
  "descendants (Element t x cs) = concat (map (\<lambda>c. c # descendants c) cs)"

definition find_descendant :: "ustr \<Rightarrow> element \<Rightarrow> element option" where
  "find_descendant t e = find (\<lambda>c. tag c = t) (descendants e)"

section \<open>KMLParser.extract\_placemarks\_from\_kml\<close>

text \<open>
  The dictionary built for one Placemark. \<^verbatim>\<open>name\<close> and \<^verbatim>\<open>style_url\<close> are the text of
  an element as it is, so they can be \<open>None\<close>.
\<close>

record 'f placemark =
  folder :: ustr
  name :: "ustr option"
  description :: ustr
  style_url :: "ustr option"
  latitude :: "'f option"
  longitude :: "'f option"
  source :: ustr

text \<open>
  \<^verbatim>\<open>folder_path\<close> is a \<^verbatim>\<open>str\<close> or \<open>None\<close> (the text of an empty name element).
  \<open>py_truthy\<close> is its truth value in a condition, \<open>py_format\<close> what an f-string prints
  for it.
\<close>

definition py_truthy :: "ustr option \<Rightarrow> bool" where
  "py_truthy p = (case p of None \<Rightarrow> False | Some s \<Rightarrow> s \<noteq> [])"

definition py_format :: "ustr option \<Rightarrow> ustr" where
  "py_format p = (case p of None \<Rightarrow> ascii ''None'' | Some s \<Rightarrow> s)"

text \<open>The label of the top level, three Chinese characters (U+6839 U+76EE U+9304).\<close>

definition root_label :: ustr where
  "root_label = [26681, 30446, 37636]"

text \<open>\<^verbatim>\<open>e.text if e is not None else ""\<close> for \<^verbatim>\<open>e = element.find('kml:x', self.ns)\<close>\<close>

definition child_text :: "string \<Rightarrow> element \<Rightarrow> ustr option" where
  "child_text n element =
     (case find_child (kml n) element of Some e \<Rightarrow> text_of e | None \<Rightarrow> Some [])"

text \<open>The Placemark branch of \<^verbatim>\<open>process_element\<close>, up to the \<^verbatim>\<open>append\<close>.\<close>

definition placemark_data ::
  "(ustr \<Rightarrow> 'f option) \<Rightarrow> (ustr \<Rightarrow> ustr) \<Rightarrow> ustr \<Rightarrow> element \<Rightarrow> ustr option \<Rightarrow> 'f placemark" where
  "placemark_data flt charref source_mid element folder_path =
     (let coords =
            (case find_descendant (kml ''coordinates'') element of
               Some coord_elem \<Rightarrow> parse_coordinates flt (text_of coord_elem)
             | None \<Rightarrow> (None, None))
      in \<lparr> folder = (if py_truthy folder_path then py_format folder_path else root_label),
           name = child_text ''name'' element,
           description = clean_html_tags charref (child_text ''description'' element),
           style_url = child_text ''styleUrl'' element,
           latitude = fst coords,
           longitude = snd coords,
           source = source_mid \<rparr>)"

text \<open>
  \<^verbatim>\<open>
  def process_element(element, folder_path=""):
      if element.tag.endswith('Folder'):
          folder_name_elem = element.find('kml:name', self.ns)
          folder_name = folder_name_elem.text if folder_name_elem is not None else ""
          current_folder_path = f"{folder_path}/{folder_name}" if folder_path else folder_name
          for child in element:
              process_element(child, current_folder_path)
      elif element.tag.endswith('Placemark'):
          data = {...}
          self.placemarks.append(data)
      else:
          for child in element:
              process_element(child, folder_path)
  \<close>
  \<^verbatim>\<open>self.placemarks\<close> is threaded through as the last argument.
\<close>

fun process_element ::
  "(ustr \<Rightarrow> 'f option) \<Rightarrow> (ustr \<Rightarrow> ustr) \<Rightarrow> ustr \<Rightarrow> element \<Rightarrow> ustr option
     \<Rightarrow> 'f placemark list \<Rightarrow> 'f placemark list" where
  "process_element flt charref source_mid (Element t x cs) folder_path placemarks =
     (if endswith t (ascii ''Folder'') then
        (let folder_name = child_text ''name'' (Element t x cs);
             current_folder_path =
               (if py_truthy folder_path
                then Some (py_format folder_path @ ascii ''/'' @ py_format folder_name)
                else folder_name)
         in fold (\<lambda>child. process_element flt charref source_mid child current_folder_path)
              cs placemarks)
      else if endswith t (ascii ''Placemark'') then
        placemarks @ [placemark_data flt charref source_mid (Element t x cs) folder_path]
      else
        fold (\<lambda>child. process_element flt charref source_mid child folder_path) cs placemarks)"

text \<open>
  The parser object holds \<^verbatim>\<open>self.placemarks\<close>. What \<^verbatim>\<open>ET.parse(kml_file)\<close> does
  with the file is an input: it raises \<^verbatim>\<open>FileNotFoundError\<close> or \<^verbatim>\<open>ParseError\<close>, or
  gives the root of the document.
\<close>

record 'f kml_parser =
  placemarks :: "'f placemark list"

datatype kml_file = Missing | Malformed | Document element

text \<open>What the tool prints about a source, as far as the properties below read it.\<close>

datatype message =
    FileError
  | PrimaryLoaded nat
  | Merged nat nat nat
  | NoPlacemarkData
  | DownloadFailed

text \<open>
  \<^verbatim>\<open>
  def extract_placemarks_from_kml(self, kml_file, source_mid=""):
      self.placemarks = []
      try:
          tree = ET.parse(kml_file)
          root = tree.getroot()
          ...
          process_element(root)
      except (ET.ParseError, FileNotFoundError) as e:
          print(f"... {e}")
          return []
      return self.placemarks
  \<close>
  The result is the returned list, the parser afterwards and what was printed.
\<close>

definition extract_placemarks_from_kml ::
  "(ustr \<Rightarrow> 'f option) \<Rightarrow> (ustr \<Rightarrow> ustr) \<Rightarrow> 'f kml_parser \<Rightarrow> kml_file \<Rightarrow> ustr
     \<Rightarrow> 'f placemark list \<times> 'f kml_parser \<times> message list" where
  "extract_placemarks_from_kml flt charref self kml_file source_mid =
     (let self1 = self\<lparr>placemarks := []\<rparr>
      in case kml_file of
           Document tree_root \<Rightarrow>
             (let self2 = self1\<lparr>placemarks :=
                            process_element flt charref source_mid tree_root (Some []) (placemarks self1)\<rparr>
              in (placemarks self2, self2, []))
         | _ \<Rightarrow> ([], self1, [FileError]))"

section \<open>GoogleMapsKMLDownloader.download\_multiple\_maps\_to\_csv\<close>

text \<open>
  One entry of \<^verbatim>\<open>map_sources\<close> with what the network returns for it:
  \<^verbatim>\<open>download_from_maps_url\<close> fails, or it writes a file that \<^verbatim>\<open>ET.parse\<close> then reads.
\<close>

datatype fetch = NoDownload | Downloaded kml_file

record map_source =
  mid :: ustr
  fetched :: fetch

type_synonym record_key = "ustr \<times> ustr option"

text \<open>\<^verbatim>\<open>(placemark.get('folder', ''), placemark.get('name', ''))\<close>\<close>

definition folder_name_key :: "'f placemark \<Rightarrow> record_key" where
  "folder_name_key placemark = (folder placemark, name placemark)"

record 'f merge_state =
  all_placemarks :: "'f placemark list"
  primary_map_records :: "record_key set"
  parser :: "'f kml_parser"
  printed :: "message list"

text \<open>
  The loop over the placemarks of the first map (lines 308 to 312) adds every key to
  \<^verbatim>\<open>primary_map_records\<close>.
\<close>

fun index_primary :: "'f placemark list \<Rightarrow> record_key set \<Rightarrow> record_key set" where
  "index_primary [] keys = keys"
| "index_primary (placemark # rest) keys =
     index_primary rest (insert (folder_name_key placemark) keys)"

text \<open>
  The loop over the placemarks of another map (lines 319 to 328), on
  \<^verbatim>\<open>(all_placemarks, added_count, skipped_count)\<close>. It reads \<^verbatim>\<open>primary_map_records\<close>
  and does not change it.
\<close>

fun add_unless_primary ::
  "record_key set \<Rightarrow> 'f placemark list \<Rightarrow> 'f placemark list \<times> nat \<times> nat
     \<Rightarrow> 'f placemark list \<times> nat \<times> nat" where
  "add_unless_primary keys [] acc = acc"
| "add_unless_primary keys (placemark # rest) (out, added_count, skipped_count) =
     (if folder_name_key placemark \<in> keys
      then add_unless_primary keys rest (out, added_count, skipped_count + 1)
      else add_unless_primary keys rest (out @ [placemark], added_count + 1, skipped_count))"

text \<open>The body of the loop over \<^verbatim>\<open>enumerate(map_sources, 1)\<close> (lines 291 to 334).\<close>

definition process_source ::
  "(ustr \<Rightarrow> 'f option) \<Rightarrow> (ustr \<Rightarrow> ustr) \<Rightarrow> nat \<Rightarrow> map_source \<Rightarrow> 'f merge_state
     \<Rightarrow> 'f merge_state" where
  "process_source flt charref i src st =
     (case fetched src of
        NoDownload \<Rightarrow> st\<lparr>printed := printed st @ [DownloadFailed]\<rparr>
      | Downloaded kml_file \<Rightarrow>
          (case extract_placemarks_from_kml flt charref (parser st) kml_file (mid src) of
             (found, parser1, msgs) \<Rightarrow>
               (let st1 = st\<lparr>parser := parser1, printed := printed st @ msgs\<rparr>
                in if found \<noteq> [] then
                     (if i = 1 then
                        st1\<lparr>all_placemarks := all_placemarks st1 @ found,
                            primary_map_records := index_primary found (primary_map_records st1),
                            printed := printed st1 @ [PrimaryLoaded (length found)]\<rparr>
                      else
                        (case add_unless_primary (primary_map_records st1) found
                                (all_placemarks st1, 0, 0) of
                           (out, added_count, skipped_count) \<Rightarrow>
                             st1\<lparr>all_placemarks := out,
                                 printed := printed st1
                                   @ [Merged (length found) added_count skipped_count]\<rparr>))
                   else st1\<lparr>printed := printed st1 @ [NoPlacemarkData]\<rparr>)))"

fun merge_loop ::
  "(ustr \<Rightarrow> 'f option) \<Rightarrow> (ustr \<Rightarrow> ustr) \<Rightarrow> nat \<Rightarrow> map_source list \<Rightarrow> 'f merge_state
     \<Rightarrow> 'f merge_state" where
  "merge_loop flt charref i [] st = st"
| "merge_loop flt charref i (src # rest) st =
     merge_loop flt charref (i + 1) rest (process_source flt charref i src st)"

definition initial_state :: "'f merge_state" where
  "initial_state =
     \<lparr> all_placemarks = [], primary_map_records = {}, parser = \<lparr>placemarks = []\<rparr>,
       printed = [] \<rparr>"

text \<open>
  The state when the loop is over. The function then writes \<^verbatim>\<open>all_placemarks\<close> to the
  CSV file and returns whether there was anything to write.
\<close>

definition download_multiple_maps_to_csv ::
  "(ustr \<Rightarrow> 'f option) \<Rightarrow> (ustr \<Rightarrow> ustr) \<Rightarrow> map_source list \<Rightarrow> 'f merge_state" where
  "download_multiple_maps_to_csv flt charref map_sources =
     merge_loop flt charref 1 map_sources initial_state"

definition returns_true :: "'f merge_state \<Rightarrow> bool" where
  "returns_true st = (all_placemarks st \<noteq> [])"

section \<open>Notions the properties are stated with\<close>

subsection \<open>Plain text\<close>

text \<open>
  The words of a text are its maximal runs of code points that are not whitespace;
  \<open>join_spaces\<close> is \<^verbatim>\<open>' '.join(words)\<close>.
\<close>

function words_of :: "ustr \<Rightarrow> ustr list" where
  "words_of [] = []"
| "words_of (c # cs) =
     (if isspace c then words_of cs
      else (c # takeWhile (\<lambda>x. \<not> isspace x) cs) # words_of (dropWhile (\<lambda>x. \<not> isspace x) cs))"
  by pat_completeness auto
termination
proof (relation "measure length")
  fix c :: nat and cs :: ustr
  show "(dropWhile (\<lambda>x. \<not> isspace x) cs, c # cs) \<in> measure length"
    using length_dropWhile_le [of "\<lambda>x. \<not> isspace x" cs] by simp
qed auto

fun join_spaces :: "ustr list \<Rightarrow> ustr" where
  "join_spaces [] = []"
| "join_spaces [w] = w"
| "join_spaces (w # v # ws) = w @ space # join_spaces (v # ws)"

text \<open>
  \<^verbatim>\<open>re.search\<close> of the two patterns: the text holds a markup tag, the text holds an
  escaped-text wrapper.
\<close>

fun has_tag :: "ustr \<Rightarrow> bool" where
  "has_tag [] = False"
| "has_tag (c # cs) =
     ((c = lt \<and> takeWhile (\<lambda>x. x \<noteq> gt) cs \<noteq> [] \<and> dropWhile (\<lambda>x. x \<noteq> gt) cs \<noteq> [])
      \<or> has_tag cs)"

fun has_cdata :: "ustr \<Rightarrow> bool" where
  "has_cdata [] = False"
| "has_cdata (c # cs) =
     ((prefix cdata_open (c # cs) \<and> find_close (drop (length cdata_open) (c # cs)) \<noteq> None)
      \<or> has_cdata cs)"

text \<open>
  A sanitizer that unwraps exactly one wrapper, the first one, and leaves the text
  after it as it is (\<^verbatim>\<open>re.sub\<close> with \<^verbatim>\<open>count=1\<close>), then goes on as the code does.
\<close>

fun spec_unwrap_one_cdata :: "ustr \<Rightarrow> ustr" where
  "spec_unwrap_one_cdata [] = []"
| "spec_unwrap_one_cdata (c # cs) =
     (if prefix cdata_open (c # cs) then
        (case find_close (drop (length cdata_open) (c # cs)) of
           Some (inner, rest) \<Rightarrow> inner @ rest
         | None \<Rightarrow> c # spec_unwrap_one_cdata cs)
      else c # spec_unwrap_one_cdata cs)"

definition spec_clean_html_tags :: "(ustr \<Rightarrow> ustr) \<Rightarrow> ustr option \<Rightarrow> ustr" where
  "spec_clean_html_tags charref text =
     (case text of
        None \<Rightarrow> []
      | Some s \<Rightarrow>
          if s = [] then []
          else strip (collapse_ws (unescape charref (strip_tags (spec_unwrap_one_cdata s)))))"

subsection \<open>Documents\<close>

text \<open>
  A container is an element the traversal takes for a Folder, a leaf one it takes for a
  Placemark. \<open>e # descendants e\<close> lists every element of the document under \<open>e\<close>.
\<close>

definition is_container :: "element \<Rightarrow> bool" where
  "is_container e = endswith (tag e) (ascii ''Folder'')"

definition is_leaf :: "element \<Rightarrow> bool" where
  "is_leaf e = (\<not> is_container e \<and> endswith (tag e) (ascii ''Placemark''))"


text \<open>No leaf of the document lies inside another leaf.\<close>

definition leaves_not_nested :: "element \<Rightarrow> bool" where
  "leaves_not_nested e =
     list_all (\<lambda>n. \<not> (is_leaf n \<and> list_ex is_leaf (descendants n))) (e # descendants e)"

text \<open>
  The folder of every leaf as the specification computes it: the declared name of a
  container is the text of its name element, empty if absent; the path of its children
  is \<^verbatim>\<open>parentPath + "/" + name\<close> if \<^verbatim>\<open>parentPath\<close> is not empty, else \<^verbatim>\<open>name\<close>.
\<close>

definition declared_name :: "element \<Rightarrow> ustr" where
  "declared_name e =
     (case find_child (kml ''name'') e of
        None \<Rightarrow> []
      | Some n \<Rightarrow> (case text_of n of None \<Rightarrow> [] | Some s \<Rightarrow> s))"

definition child_path :: "ustr \<Rightarrow> ustr \<Rightarrow> ustr" where
  "child_path parent_path nm =
     (if parent_path \<noteq> [] then parent_path @ ascii ''/'' @ nm else nm)"

fun spec_leaf_folders :: "element \<Rightarrow> ustr \<Rightarrow> ustr list" where
  "spec_leaf_folders (Element t x cs) parent_path =
     (if is_container (Element t x cs) then
        concat (map (\<lambda>c. spec_leaf_folders c
                  (child_path parent_path (declared_name (Element t x cs)))) cs)
      else if is_leaf (Element t x cs) then
        [if parent_path = [] then root_label else parent_path]
      else concat (map (\<lambda>c. spec_leaf_folders c parent_path) cs))"

text \<open>Every name element of a container has text.\<close>

definition containers_named :: "element \<Rightarrow> bool" where
  "containers_named e =
     list_all (\<lambda>n. \<not> (is_container n \<and> child_text ''name'' n = None)) (e # descendants e)"

text \<open>Coordinates as the specification wants them: both null, or both in range.\<close>

definition in_geographic_range :: "rat placemark \<Rightarrow> bool" where
  "in_geographic_range p =
     (case (latitude p, longitude p) of
        (None, None) \<Rightarrow> True
      | (Some la, Some lo) \<Rightarrow> - 90 \<le> la \<and> la \<le> 90 \<and> - 180 \<le> lo \<and> lo \<le> 180
      | _ \<Rightarrow> False)"

subsection \<open>Merge runs\<close>

text \<open>The records of one source: what the extractor returns for it, none if the
  download fails.\<close>

definition source_records ::
  "(ustr \<Rightarrow> 'f option) \<Rightarrow> (ustr \<Rightarrow> ustr) \<Rightarrow> map_source \<Rightarrow> 'f placemark list" where
  "source_records flt charref src =
     (case fetched src of
        NoDownload \<Rightarrow> []
      | Downloaded kml_file \<Rightarrow>
          fst (extract_placemarks_from_kml flt charref \<lparr>placemarks = []\<rparr> kml_file (mid src)))"

definition source_failed :: "map_source \<Rightarrow> bool" where
  "source_failed src =
     (case fetched src of
        NoDownload \<Rightarrow> True
      | Downloaded kml_file \<Rightarrow> (case kml_file of Document d \<Rightarrow> False | _ \<Rightarrow> True))"

text \<open>The identity keys of the primary source, the first of the list.\<close>

definition primary_keys ::
  "(ustr \<Rightarrow> 'f option) \<Rightarrow> (ustr \<Rightarrow> ustr) \<Rightarrow> map_source list \<Rightarrow> record_key set" where
  "primary_keys flt charref map_sources =
     (case map_sources of
        [] \<Rightarrow> {}
      | primary # others \<Rightarrow>
          set (map folder_name_key (source_records flt charref primary :: 'f placemark list)))"

text \<open>What a source other than the first adds to the output, given the keys to skip.\<close>

definition kept :: "record_key set \<Rightarrow> 'f placemark list \<Rightarrow> 'f placemark list" where
  "kept keys records = filter (\<lambda>p. folder_name_key p \<notin> keys) records"

definition skipped :: "record_key set \<Rightarrow> 'f placemark list \<Rightarrow> 'f placemark list" where
  "skipped keys records = filter (\<lambda>p. folder_name_key p \<in> keys) records"

text \<open>
  The merge as section 4.5 of the specification words it, on the record sets of the
  sources: the identity-key set starts with the keys of the primary source, and every
  record appended from a later source adds its key to it.
\<close>

fun spec_merge_source ::
  "'f placemark list \<Rightarrow> 'f placemark list \<times> record_key set
     \<Rightarrow> 'f placemark list \<times> record_key set" where
  "spec_merge_source [] acc = acc"
| "spec_merge_source (p # ps) (out, keys) =
     (if folder_name_key p \<in> keys then spec_merge_source ps (out, keys)
      else spec_merge_source ps (out @ [p], insert (folder_name_key p) keys))"

definition spec_merge :: "'f placemark list list \<Rightarrow> 'f placemark list" where
  "spec_merge record_sets =
     (case record_sets of
        [] \<Rightarrow> []
      | primary # others \<Rightarrow>
          fst (fold spec_merge_source others (primary, set (map folder_name_key primary))))"

text \<open>
  The leaves the traversal reaches, in document order: the leaves that are not inside
  another leaf.
\<close>

fun top_leaves :: "element \<Rightarrow> element list" where
  "top_leaves (Element t x cs) =
     (if is_leaf (Element t x cs) then [Element t x cs] else concat (map top_leaves cs))"

text \<open>
  The coordinate text of a leaf: the text of the first coordinates element below it,
  \<open>None\<close> if it has none or the element is empty.
\<close>

definition coordinate_text :: "element \<Rightarrow> ustr option" where
  "coordinate_text leaf =
     (case find_descendant (kml ''coordinates'') leaf of
        None \<Rightarrow> None
      | Some coord_elem \<Rightarrow> text_of coord_elem)"

text \<open>
  The pair a coordinate text determines: \<open>(float lat, float lng)\<close> for the first
  component \<open>lng\<close> and the second component \<open>lat\<close> of the stripped text, if the text has
  two components and \<open>float\<close> accepts both; the null pair otherwise.
\<close>

definition paired_floats :: "(ustr \<Rightarrow> 'f option) \<Rightarrow> ustr option \<Rightarrow> 'f option \<times> 'f option" where
  "paired_floats flt coord_text =
     (case coord_text of
        None \<Rightarrow> (None, None)
      | Some s \<Rightarrow>
          (case split_on comma (strip s) of
             lng # lat # rest \<Rightarrow>
               (if flt lat = None \<or> flt lng = None then (None, None) else (flt lat, flt lng))
           | _ \<Rightarrow> (None, None)))"

text \<open>
  What the tool prints about one source, given the keys to skip: a failed download; or a
  file error, if the file does not parse, and then the count of the primary, the counts
  found, added and skipped of a later source, or that the source has no data.
\<close>

definition source_messages ::
  "(ustr \<Rightarrow> 'f option) \<Rightarrow> (ustr \<Rightarrow> ustr) \<Rightarrow> record_key set \<Rightarrow> bool \<Rightarrow> map_source
     \<Rightarrow> message list" where
  "source_messages flt charref keys is_first src =
     (case fetched src of
        NoDownload \<Rightarrow> [DownloadFailed]
      | Downloaded kml_file \<Rightarrow>
          (case kml_file of Document d \<Rightarrow> [] | _ \<Rightarrow> [FileError])
          @ (let records = (source_records flt charref src :: 'f placemark list)
             in if records = [] then [NoPlacemarkData]
                else if is_first then [PrimaryLoaded (length records)]
                else [Merged (length records) (length (kept keys records))
                        (length (skipped keys records))]))"

text \<open>\<^verbatim>\<open>s.rstrip()\<close>, the second half of \<open>strip\<close>.\<close>

definition rstrip :: "ustr \<Rightarrow> ustr" where
  "rstrip s = rev (dropWhile isspace (rev s))"

subsection \<open>Runs with the exceptions that are not caught\<close>

text \<open>
  The \<^verbatim>\<open>except\<close> clause of the extractor (line 93) names two exceptions.
\<close>

definition caught :: "exception \<Rightarrow> bool" where
  "caught e = (e = ParseError \<or> e = FileNotFoundError)"

text \<open>The sanitizer raises for the description of a leaf.\<close>

definition description_raises :: "(ustr \<Rightarrow> ustr) \<Rightarrow> element \<Rightarrow> bool" where
  "description_raises charref leaf =
     isl (clean_html_tags_result charref (child_text ''description'' leaf))"

text \<open>
  One entry of \<^verbatim>\<open>map_sources\<close> with what happens for it: the download fails
  (\<open>None\<close>; \<^verbatim>\<open>download_kml\<close> catches every exception), or \<^verbatim>\<open>ET.parse\<close> raises an
  exception or gives the root of the document. \<^verbatim>\<open>ET.parse\<close> raises \<^verbatim>\<open>ValueError\<close> for a
  file that declares a multi-byte encoding and \<^verbatim>\<open>LookupError\<close> for one that declares an
  unknown encoding.
\<close>

datatype attempt = Attempt (attempt_mid: ustr) (response: "(exception + element) option")

text \<open>
  The loop body (lines 291 to 334) has no \<^verbatim>\<open>try\<close>. An exception that the extractor
  does not catch, from \<^verbatim>\<open>ET.parse\<close> or from the sanitizer during the traversal, leaves
  the loop and the function; otherwise the entry is processed as the source
  \<open>process_source\<close> is defined on.
\<close>

definition as_source :: "(ustr \<Rightarrow> ustr) \<Rightarrow> attempt \<Rightarrow> exception + map_source" where
  "as_source charref a =
     (case response a of
        None \<Rightarrow> Inr \<lparr>mid = attempt_mid a, fetched = NoDownload\<rparr>
      | Some outcome \<Rightarrow>
          (case outcome of
             Inl e \<Rightarrow>
               if caught e
               then Inr \<lparr>mid = attempt_mid a,
                         fetched = Downloaded (if e = FileNotFoundError then Missing else Malformed)\<rparr>
               else Inl e
           | Inr tree_root \<Rightarrow>
               if list_ex (description_raises charref) (top_leaves tree_root)
               then Inl ValueError
               else Inr \<lparr>mid = attempt_mid a, fetched = Downloaded (Document tree_root)\<rparr>))"

fun merge_result ::
  "(ustr \<Rightarrow> 'f option) \<Rightarrow> (ustr \<Rightarrow> ustr) \<Rightarrow> nat \<Rightarrow> attempt list \<Rightarrow> 'f merge_state
     \<Rightarrow> exception + 'f merge_state" where
  "merge_result flt charref i [] st = Inr st"
| "merge_result flt charref i (a # rest) st =
     (case as_source charref a of
        Inl e \<Rightarrow> Inl e
      | Inr src \<Rightarrow> merge_result flt charref (i + 1) rest (process_source flt charref i src st))"

text \<open>
  \<^verbatim>\<open>download_multiple_maps_to_csv\<close>: the exception it raises, or the state when the
  loop is over.
\<close>

definition download_multiple_maps_result ::
  "(ustr \<Rightarrow> 'f option) \<Rightarrow> (ustr \<Rightarrow> ustr) \<Rightarrow> attempt list \<Rightarrow> exception + 'f merge_state" where
  "download_multiple_maps_result flt charref attempts =
     merge_result flt charref 1 attempts initial_state"

subsection \<open>Example documents\<close>

definition example_placemark :: "string \<Rightarrow> string \<Rightarrow> element" where
  "example_placemark n c =
     Element (kml ''Placemark'') None
       [Element (kml ''name'') (Some (ascii n)) [],
        Element (kml ''Point'') None [Element (kml ''coordinates'') (Some (ascii c)) []]]"

definition example_folder :: "ustr option \<Rightarrow> element list \<Rightarrow> element" where
  "example_folder n cs = Element (kml ''Folder'') None (Element (kml ''name'') n [] # cs)"

definition example_document :: "element list \<Rightarrow> element" where
  "example_document cs = Element (kml ''kml'') None [Element (kml ''Document'') None cs]"

definition example_source :: "string \<Rightarrow> element list \<Rightarrow> map_source" where
  "example_source m cs =
     \<lparr> mid = ascii m, fetched = Downloaded (Document (example_document cs)) \<rparr>"

definition example_attempt :: "string \<Rightarrow> element list \<Rightarrow> attempt" where
  "example_attempt m cs = Attempt (ascii m) (Some (Inr (example_document cs)))"

lemmas model_defs =
  ascii_def kml_def comma_def isspace_def strip_def parse_coordinates_def
  isdigit_def digits_value_def unsigned_decimal_def decimal_float_def
  cdata_open_def cdata_close_def lt_def gt_def amp_def space_def unescape_def
  clean_html_tags_def
  endswith_def suffix_to_prefix find_child_def find_descendant_def py_truthy_def
  py_format_def root_label_def child_text_def placemark_data_def
  extract_placemarks_from_kml_def folder_name_key_def process_source_def
  initial_state_def download_multiple_maps_to_csv_def
  example_placemark_def example_folder_def example_document_def example_source_def
  Let_def

section \<open>Facts about strings\<close>

lemma split_on_nonempty: "split_on sep s \<noteq> []"
  by (induction s) (auto simp: Let_def)

lemma split_on_no_sep: "sep \<notin> set s \<Longrightarrow> split_on sep s = [s]"
  by (induction s) (auto simp: Let_def)

lemma split_on_first:
  "sep \<notin> set a \<Longrightarrow> split_on sep (a @ sep # r) = a # split_on sep r"
  by (induction a) (auto simp: Let_def)

lemma split_on_length: "length (split_on sep s) = Suc (count_list s sep)"
  by (induction s) (auto simp: Let_def split_on_nonempty)

lemma strip_Nil [simp]: "strip [] = []"
  by (simp add: strip_def)

lemma strip_eq_Nil: "strip s = [] \<longleftrightarrow> list_all isspace s"
proof (cases "dropWhile isspace s")
  case Nil
  then have "\<forall>x\<in>set s. isspace x" by (simp add: dropWhile_eq_Nil_conv)
  then show ?thesis unfolding strip_def Nil by (simp add: list_all_iff)
next
  case (Cons c cs)
  then have "\<not> isspace c" using hd_dropWhile[of isspace s] by simp
  moreover have "c \<in> set s" using Cons set_dropWhileD[of c isspace s] by simp
  ultimately show ?thesis using Cons
    by (auto simp: strip_def list_all_iff dropWhile_eq_Nil_conv)
qed

section \<open>The coordinate normalizer\<close>

text \<open>
  C6, as amended. \<open>parse_coordinates\<close> returns the null pair when the text is missing,
  empty or all whitespace, and when the stripped text has no comma (fewer than two
  components). When the stripped text starts with two components \<open>lng\<close> and \<open>lat\<close>,
  it returns the null pair if \<open>float\<close> rejects either of the two, and otherwise
  \<open>(float lat, float lng)\<close>: the order is swapped. What follows the second component
  is not read. This holds for every \<open>float\<close>; no case raises.
\<close>

theorem parse_coordinates_first_two_components:
  "(coord_text = None \<or> (\<exists>s. coord_text = Some s \<and> list_all isspace s)
      \<longrightarrow> parse_coordinates flt coord_text = (None, None))
   \<and> (comma \<notin> set (strip s) \<longrightarrow> parse_coordinates flt (Some s) = (None, None))
   \<and> (strip s = lng @ comma # lat @ rest \<and> comma \<notin> set lng \<and> comma \<notin> set lat
        \<and> (rest = [] \<or> (\<exists>more. rest = comma # more))
      \<longrightarrow> parse_coordinates flt (Some s) =
            (if flt lat = None \<or> flt lng = None then (None, None) else (flt lat, flt lng)))"
proof (intro conjI impI)
  assume "coord_text = None \<or> (\<exists>s. coord_text = Some s \<and> list_all isspace s)"
  then show "parse_coordinates flt coord_text = (None, None)"
    by (auto simp: parse_coordinates_def strip_eq_Nil)
next
  assume "comma \<notin> set (strip s)"
  then show "parse_coordinates flt (Some s) = (None, None)"
    by (simp add: parse_coordinates_def split_on_no_sep)
next
  assume h: "strip s = lng @ comma # lat @ rest \<and> comma \<notin> set lng \<and> comma \<notin> set lat
        \<and> (rest = [] \<or> (\<exists>more. rest = comma # more))"
  then have "strip s \<noteq> []" by simp
  moreover from this have "s \<noteq> []" by auto
  moreover from h have "\<exists>ps. split_on comma (lat @ rest) = lat # ps"
    by (auto simp: split_on_no_sep split_on_first)
  then have "\<exists>ps. split_on comma (strip s) = lng # lat # ps"
    using h by (simp add: split_on_first)
  ultimately show "parse_coordinates flt (Some s) =
            (if flt lat = None \<or> flt lng = None then (None, None) else (flt lat, flt lng))"
    by (cases "flt lat"; cases "flt lng"; auto simp add: parse_coordinates_def)
qed

text \<open>
  The examples of the specification: \<^verbatim>\<open>"121.5,23.6"\<close> gives \<open>(23.6, 121.5)\<close>, the empty
  string, a blank string and \<^verbatim>\<open>"abc,def"\<close> give the null pair.
\<close>

theorem parse_coordinates_first_two_components_witness:
  "parse_coordinates decimal_float (Some (ascii ''121.5,23.6'')) = (Some (118 / 5), Some (243 / 2))
   \<and> parse_coordinates decimal_float (Some []) = (None, None)
   \<and> parse_coordinates decimal_float (Some (ascii ''  '')) = (None, None)
   \<and> parse_coordinates decimal_float (Some (ascii ''abc'')) = (None, None)
   \<and> parse_coordinates decimal_float (Some (ascii ''abc,def'')) = (None, None)"
proof -
  have a: "strip (ascii ''121.5,23.6'') = ascii ''121.5'' @ comma # ascii ''23.6'' @ []
      \<and> comma \<notin> set (ascii ''121.5'') \<and> comma \<notin> set (ascii ''23.6'')
      \<and> ([] = [] \<or> (\<exists>more. ([]::ustr) = comma # more))"
    by (simp add: model_defs)
  have b: "decimal_float (ascii ''23.6'') = Some (118 / 5)"
    "decimal_float (ascii ''121.5'') = Some (243 / 2)"
    by (simp_all add: model_defs)
  have c: "strip (ascii ''abc,def'') = ascii ''abc'' @ comma # ascii ''def'' @ []
      \<and> comma \<notin> set (ascii ''abc'') \<and> comma \<notin> set (ascii ''def'')
      \<and> ([] = [] \<or> (\<exists>more. ([]::ustr) = comma # more))"
    by (simp add: model_defs)
  have d: "decimal_float (ascii ''def'') = None"
    by (simp add: model_defs)
  have e: "comma \<notin> set (strip (ascii ''abc''))"
    by (simp add: model_defs)
  have f: "Some ([]::ustr) = None \<or> (\<exists>s. Some ([]::ustr) = Some s \<and> list_all isspace s)"
    "Some (ascii ''  '') = None \<or> (\<exists>s. Some (ascii ''  '') = Some s \<and> list_all isspace s)"
    by (simp_all add: model_defs)
  show ?thesis
    using parse_coordinates_first_two_components
            [where coord_text = "Some []" and flt = decimal_float
               and s = "ascii ''121.5,23.6''" and lng = "ascii ''121.5''"
               and lat = "ascii ''23.6''" and rest = "[]"]
          parse_coordinates_first_two_components
            [where coord_text = "Some (ascii ''  '')" and flt = decimal_float
               and s = "ascii ''abc,def''" and lng = "ascii ''abc''"
               and lat = "ascii ''def''" and rest = "[]"]
          parse_coordinates_first_two_components
            [where coord_text = None and flt = decimal_float and s = "ascii ''abc''"]
          a b c d e f
    by simp
qed

text \<open>
  C6 as stated fails: in \<^verbatim>\<open>"1,2,abc"\<close> the third component is not a float, and the
  result is \<open>(2, 1)\<close>.
\<close>

theorem parse_coordinates_unparseable_third_component:
  "split_on comma (strip (ascii ''1,2,abc'')) = [ascii ''1'', ascii ''2'', ascii ''abc'']
   \<and> decimal_float (ascii ''abc'') = None
   \<and> parse_coordinates decimal_float (Some (ascii ''1,2,abc'')) = (Some 2, Some 1)"
  by (simp add: model_defs)

section \<open>Facts about the traversal\<close>

lemma fold_emit:
  assumes "\<And>c acc. c \<in> set cs \<Longrightarrow> f c acc = acc @ g c"
  shows "fold f cs acc = acc @ concat (map g cs)"
  using assms
proof (induction cs arbitrary: acc)
  case Nil
  then show ?case by simp
next
  case (Cons c cs)
  have h1: "f c acc = acc @ g c" by (rule Cons.prems) simp
  have h2: "fold f cs (acc @ g c) = (acc @ g c) @ concat (map g cs)"
    by (rule Cons.IH) (rule Cons.prems, simp)
  show ?case by (simp add: h1 h2)
qed

lemma process_element_append:
  "process_element flt charref source_mid e folder_path acc =
     acc @ process_element flt charref source_mid e folder_path []"
proof (induction flt charref source_mid e folder_path acc rule: process_element.induct)
  case (1 flt charref source_mid t x cs folder_path placemarks)
  show ?case
  proof (cases "endswith t (ascii ''Folder'')")
    case True
    define cur where "cur = (if py_truthy folder_path
                then Some (py_format folder_path @ ascii ''/'' @ py_format (child_text ''name'' (Element t x cs)))
                else child_text ''name'' (Element t x cs))"
    have ih: "\<And>c acc. c \<in> set cs \<Longrightarrow>
        process_element flt charref source_mid c cur acc =
        acc @ process_element flt charref source_mid c cur []"
      unfolding cur_def by (rule "1.IH"(1)[OF True refl refl])
    have "\<And>acc. fold (\<lambda>c. process_element flt charref source_mid c cur) cs acc
        = acc @ concat (map (\<lambda>c. process_element flt charref source_mid c cur []) cs)"
      by (rule fold_emit) (rule ih)
    then show ?thesis
      using True by (simp add: Let_def cur_def)
  next
    case False
    show ?thesis
    proof (cases "endswith t (ascii ''Placemark'')")
      case True
      with False show ?thesis by simp
    next
      case notpm: False
      have ih: "\<And>c acc. c \<in> set cs \<Longrightarrow>
        process_element flt charref source_mid c folder_path acc =
        acc @ process_element flt charref source_mid c folder_path []"
        by (rule "1.IH"(2)[OF False notpm])
      have "\<And>acc. fold (\<lambda>c. process_element flt charref source_mid c folder_path) cs acc
        = acc @ concat (map (\<lambda>c. process_element flt charref source_mid c folder_path []) cs)"
        by (rule fold_emit) (rule ih)
      then show ?thesis
        using False notpm by simp
    qed
  qed
qed


lemma process_element_emits:
  "process_element flt charref source_mid (Element t x cs) folder_path [] =
     (if endswith t (ascii ''Folder'') then
        concat (map (\<lambda>c. process_element flt charref source_mid c
                  (if py_truthy folder_path
                   then Some (py_format folder_path @ ascii ''/''
                              @ py_format (child_text ''name'' (Element t x cs)))
                   else child_text ''name'' (Element t x cs)) []) cs)
      else if endswith t (ascii ''Placemark'') then
        [placemark_data flt charref source_mid (Element t x cs) folder_path]
      else concat (map (\<lambda>c. process_element flt charref source_mid c folder_path []) cs))"
proof -
  have "\<And>p. fold (\<lambda>c. process_element flt charref source_mid c p) cs []
        = [] @ concat (map (\<lambda>c. process_element flt charref source_mid c p []) cs)"
    by (rule fold_emit) (rule process_element_append)
  then show ?thesis by (simp add: Let_def)
qed

lemma descendants_child:
  "c \<in> set cs \<Longrightarrow> set (c # descendants c) \<subseteq> set (descendants (Element t x cs))"
  by auto

lemma leaves_not_nested_child:
  assumes "leaves_not_nested (Element t x cs)" "c \<in> set cs"
  shows "leaves_not_nested c"
proof -
  have "set (c # descendants c) \<subseteq> set (Element t x cs # descendants (Element t x cs))"
    using descendants_child[OF assms(2), of t x] by auto
  then show ?thesis
    using assms(1) unfolding leaves_not_nested_def list_all_iff by blast
qed




section \<open>One record per leaf\<close>




section \<open>The folder of a record\<close>

lemma containers_named_child:
  assumes "containers_named (Element t x cs)" "c \<in> set cs"
  shows "containers_named c"
proof -
  have "set (c # descendants c) \<subseteq> set (Element t x cs # descendants (Element t x cs))"
    using descendants_child[OF assms(2), of t x] by auto
  then show ?thesis
    using assms(1) unfolding containers_named_def list_all_iff by blast
qed

lemma concat_map_cong:
  assumes "\<And>c. c \<in> set cs \<Longrightarrow> f c = g c"
  shows "concat (map f cs) = concat (map g cs)"
  using assms by (induction cs) auto

lemma named_container_path:
  assumes "is_container e" "child_text ''name'' e \<noteq> None"
  shows "(if py_truthy (Some p)
          then Some (py_format (Some p) @ ascii ''/'' @ py_format (child_text ''name'' e))
          else child_text ''name'' e) = Some (child_path p (declared_name e))"
proof -
  obtain nm where nm: "child_text ''name'' e = Some nm" using assms(2) by auto
  then have "declared_name e = nm"
    by (auto simp: child_text_def declared_name_def split: option.splits)
  then show ?thesis using nm by (simp add: py_truthy_def py_format_def child_path_def)
qed

lemma process_element_folders:
  "containers_named e \<Longrightarrow>
     map folder (process_element flt charref source_mid e (Some p) []) = spec_leaf_folders e p"
proof (induction e arbitrary: p)
  case (Element t x cs)
  have kids: "\<And>q. concat (map (\<lambda>c. map folder (process_element flt charref source_mid c (Some q) [])) cs)
      = concat (map (\<lambda>c. spec_leaf_folders c q) cs)"
  proof (rule concat_map_cong)
    fix q c assume c: "c \<in> set cs"
    then have "containers_named c" using Element.prems containers_named_child by blast
    then show "map folder (process_element flt charref source_mid c (Some q) []) = spec_leaf_folders c q"
      using Element.IH[OF c] by simp
  qed
  show ?case
  proof (cases "is_container (Element t x cs)")
    case True
    then have "child_text ''name'' (Element t x cs) \<noteq> None"
      using Element.prems by (simp add: containers_named_def)
    from named_container_path[OF True this, of p] True show ?thesis
      unfolding process_element_emits
      by (simp add: is_container_def map_concat comp_def kids)
  next
    case False
    show ?thesis
    proof (cases "is_leaf (Element t x cs)")
      case True
      then show ?thesis unfolding process_element_emits
        by (simp add: is_leaf_def is_container_def placemark_data_def py_truthy_def py_format_def Let_def)
    next
      case notleaf: False
      with False show ?thesis unfolding process_element_emits
        by (simp add: is_leaf_def is_container_def map_concat comp_def kids)
    qed
  qed
qed

text \<open>
  Where every name element of a container has text, the folder of each record is the
  path the specification computes for its leaf.
\<close>

lemma extract_folders:
  "containers_named tree_root \<Longrightarrow>
     map folder (fst (extract_placemarks_from_kml flt charref self (Document tree_root) source_mid))
       = spec_leaf_folders tree_root []"
  by (simp add: extract_placemarks_from_kml_def process_element_folders)

text \<open>
  C5 fails on the code where a container inside a named container has an empty name
  element: its text is \<open>None\<close>, and the f-string prints it as \<^verbatim>\<open>None\<close>. For the
  Placemark in the unnamed folder inside folder A the code gives the folder
  \<^verbatim>\<open>A/None\<close>; the path of the specification is \<^verbatim>\<open>A/\<close>.
\<close>

theorem folder_of_unnamed_subfolder:
  "map folder (fst (extract_placemarks_from_kml decimal_float id \<lparr>placemarks = []\<rparr>
      (Document (example_document
         [example_folder (Some (ascii ''A''))
            [example_folder None [example_placemark ''X'' ''121.5,23.6'']]]))
      (ascii ''m1''))) = [ascii ''A/None'']
   \<and> spec_leaf_folders (example_document
         [example_folder (Some (ascii ''A''))
            [example_folder None [example_placemark ''X'' ''121.5,23.6'']]]) []
       = [ascii ''A/'']"
  by (simp add: model_defs is_container_def is_leaf_def declared_name_def child_path_def)

section \<open>Coordinates of the records\<close>

lemma parse_coordinates_paired_floats:
  "parse_coordinates flt coord_text = paired_floats flt coord_text"
proof (cases coord_text)
  case None
  then show ?thesis by (simp add: parse_coordinates_def paired_floats_def)
next
  case (Some s)
  show ?thesis
  proof (cases "strip s = []")
    case True
    then show ?thesis using Some by (simp add: parse_coordinates_def paired_floats_def)
  next
    case False
    then have s: "s \<noteq> []" by auto
    show ?thesis
    proof (cases "split_on comma (strip s)")
      case Nil
      then show ?thesis using split_on_nonempty by blast
    next
      case one: (Cons lng ps)
      show ?thesis
      proof (cases ps)
        case Nil
        then show ?thesis using Some False s one
          by (simp add: parse_coordinates_def paired_floats_def)
      next
        case (Cons lat rest)
        then show ?thesis using Some False s one
          by (cases "flt lat"; cases "flt lng";
              simp add: parse_coordinates_def paired_floats_def)
      qed
    qed
  qed
qed

lemma paired_floats_both:
  "(fst (paired_floats flt coord_text) = None) = (snd (paired_floats flt coord_text) = None)"
  by (auto simp: paired_floats_def split: option.splits list.splits)

lemma placemark_data_coordinates:
  "(latitude (placemark_data flt charref source_mid e folder_path),
    longitude (placemark_data flt charref source_mid e folder_path))
     = paired_floats flt (coordinate_text e)"
  by (cases "find_descendant (kml ''coordinates'') e")
     (simp_all add: placemark_data_def coordinate_text_def Let_def
        parse_coordinates_paired_floats paired_floats_def)

lemma process_element_coordinates:
  "map (\<lambda>p. (latitude p, longitude p))
       (process_element flt charref source_mid e folder_path [])
     = map (\<lambda>leaf. paired_floats flt (coordinate_text leaf)) (top_leaves e)"
proof (induction e arbitrary: folder_path)
  case (Element t x cs)
  have kids: "\<And>q. concat (map (\<lambda>c. map (\<lambda>p. (latitude p, longitude p))
                 (process_element flt charref source_mid c q [])) cs)
      = concat (map (\<lambda>c. map (\<lambda>leaf. paired_floats flt (coordinate_text leaf)) (top_leaves c)) cs)"
  proof (rule concat_map_cong)
    fix q c assume "c \<in> set cs"
    then show "map (\<lambda>p. (latitude p, longitude p)) (process_element flt charref source_mid c q [])
        = map (\<lambda>leaf. paired_floats flt (coordinate_text leaf)) (top_leaves c)"
      by (rule Element.IH)
  qed
  show ?case
  proof (cases "is_leaf (Element t x cs)")
    case True
    then show ?thesis unfolding process_element_emits
      by (simp add: is_leaf_def is_container_def placemark_data_coordinates)
  next
    case False
    then show ?thesis unfolding process_element_emits
      by (auto simp: is_leaf_def is_container_def map_concat comp_def kids)
  qed
qed

lemma top_leaves_all:
  "leaves_not_nested e \<Longrightarrow> top_leaves e = filter is_leaf (e # descendants e)"
proof (induction e)
  case (Element t x cs)
  have kids: "concat (map top_leaves cs)
      = concat (map (\<lambda>c. filter is_leaf (c # descendants c)) cs)"
  proof (rule concat_map_cong)
    fix c assume c: "c \<in> set cs"
    then have "leaves_not_nested c" using Element.prems leaves_not_nested_child by blast
    then show "top_leaves c = filter is_leaf (c # descendants c)" using Element.IH[OF c] by simp
  qed
  show ?case
  proof (cases "is_leaf (Element t x cs)")
    case True
    then have "\<not> list_ex is_leaf (descendants (Element t x cs))"
      using Element.prems by (simp add: leaves_not_nested_def)
    then have "filter is_leaf (descendants (Element t x cs)) = []"
      by (simp add: list_ex_iff filter_empty_conv)
    then show ?thesis using True by simp
  next
    case False
    have "filter is_leaf (descendants (Element t x cs))
        = concat (map (\<lambda>c. filter is_leaf (c # descendants c)) cs)"
      by (simp add: filter_concat comp_def)
    then show ?thesis using False kids by simp
  qed
qed

text \<open>
  C3, as amended. The records the extractor returns answer, in order, to the leaves the
  traversal reaches, and latitude and longitude of each record are the pair that the
  coordinate text of its leaf determines: both null when the leaf has no coordinate
  text or the text has fewer than two components or \<open>float\<close> rejects the first or the
  second component, and otherwise the value of \<open>float\<close> for the second component and
  the value of \<open>float\<close> for the first, as \<open>float\<close> returned them. So in every record both
  are null or neither is. No range is checked and no value is clamped.
\<close>

theorem extract_coordinates_of_text:
  "map (\<lambda>p. (latitude p, longitude p))
       (fst (extract_placemarks_from_kml flt charref self (Document tree_root) source_mid))
     = map (\<lambda>leaf. paired_floats flt (coordinate_text leaf)) (top_leaves tree_root)
   \<and> list_all (\<lambda>p. (latitude p = None) = (longitude p = None))
       (fst (extract_placemarks_from_kml flt charref self kml_file source_mid))"
proof
  show a: "\<And>r. map (\<lambda>p. (latitude p, longitude p))
       (fst (extract_placemarks_from_kml flt charref self (Document r) source_mid))
     = map (\<lambda>leaf. paired_floats flt (coordinate_text leaf)) (top_leaves r)"
    by (simp add: extract_placemarks_from_kml_def process_element_coordinates)
  show "list_all (\<lambda>p. (latitude p = None) = (longitude p = None))
       (fst (extract_placemarks_from_kml flt charref self kml_file source_mid))"
  proof (cases kml_file)
    case (Document r)
    have "list_all (\<lambda>c. (fst c = None) = (snd c = None))
        (map (\<lambda>leaf. paired_floats flt (coordinate_text leaf)) (top_leaves r))"
      by (simp add: list_all_iff paired_floats_both)
    then have "list_all (\<lambda>c. (fst c = None) = (snd c = None))
        (map (\<lambda>p. (latitude p, longitude p))
           (fst (extract_placemarks_from_kml flt charref self (Document r) source_mid)))"
      unfolding a .
    then show ?thesis using Document by (simp add: list_all_iff)
  qed (simp_all add: extract_placemarks_from_kml_def)
qed

theorem extract_coordinates_of_text_witness:
  "map (\<lambda>p. (latitude p, longitude p))
       (fst (extract_placemarks_from_kml decimal_float id \<lparr>placemarks = []\<rparr>
          (Document (example_document
          [example_placemark ''X'' ''121.5,23.6,0'', example_placemark ''Y'' ''abc,1''])) (ascii ''m1'')))
     = [(Some (118 / 5), Some (243 / 2)), (None, None)]"
proof -
  have "map (\<lambda>leaf. paired_floats decimal_float (coordinate_text leaf))
          (top_leaves (example_document
             [example_placemark ''X'' ''121.5,23.6,0'', example_placemark ''Y'' ''abc,1'']))
      = [(Some (118 / 5), Some (243 / 2)), (None, None)]"
    by (simp add: model_defs is_leaf_def is_container_def coordinate_text_def paired_floats_def)
  then show ?thesis
    using extract_coordinates_of_text
            [of decimal_float id "\<lparr>placemarks = []\<rparr>"
                "example_document
                   [example_placemark ''X'' ''121.5,23.6,0'', example_placemark ''Y'' ''abc,1'']"
                "ascii ''m1''" Missing]
    by simp
qed

text \<open>
  C3 as stated fails: the coordinate text \<^verbatim>\<open>"200,100"\<close> gives latitude 100, outside
  the range of latitudes.
\<close>

theorem extract_latitude_out_of_range:
  "map latitude (fst (extract_placemarks_from_kml decimal_float id \<lparr>placemarks = []\<rparr>
       (Document (example_document [example_placemark ''Y'' ''200,100'']))
       (ascii ''m1''))) = [Some 100]
   \<and> \<not> list_all in_geographic_range
       (fst (extract_placemarks_from_kml decimal_float id \<lparr>placemarks = []\<rparr>
          (Document (example_document [example_placemark ''Y'' ''200,100'']))
          (ascii ''m1'')))"
  by (simp add: model_defs in_geographic_range_def)

section \<open>The parser between two extractions\<close>

text \<open>
  C10. The extractor resets \<^verbatim>\<open>self.placemarks\<close> before it reads the document, so what it
  returns does not depend on the parser it is called on: two parsers in any two states
  return the same records for the same file and source identifier. Afterwards the parser
  holds the records just returned.
\<close>

theorem extract_resets_parser:
  "fst (extract_placemarks_from_kml flt charref self kml_file source_mid)
     = fst (extract_placemarks_from_kml flt charref self' kml_file source_mid)
   \<and> placemarks (fst (snd (extract_placemarks_from_kml flt charref self kml_file source_mid)))
     = fst (extract_placemarks_from_kml flt charref self kml_file source_mid)"
  by (cases kml_file) (simp_all add: extract_placemarks_from_kml_def)

text \<open>A parser that has extracted one document returns for the next what a new parser
  returns.\<close>

theorem extract_resets_parser_witness:
  "fst (extract_placemarks_from_kml decimal_float id
          (fst (snd (extract_placemarks_from_kml decimal_float id \<lparr>placemarks = []\<rparr>
             (Document (example_document [example_placemark ''X'' ''1,2''])) (ascii ''m1''))))
          (Document (example_document [example_placemark ''Y'' ''3,4''])) (ascii ''m2''))
   = fst (extract_placemarks_from_kml decimal_float id \<lparr>placemarks = []\<rparr>
          (Document (example_document [example_placemark ''Y'' ''3,4''])) (ascii ''m2''))
   \<and> map name (fst (extract_placemarks_from_kml decimal_float id
          (fst (snd (extract_placemarks_from_kml decimal_float id \<lparr>placemarks = []\<rparr>
             (Document (example_document [example_placemark ''X'' ''1,2''])) (ascii ''m1''))))
          (Document (example_document [example_placemark ''Y'' ''3,4''])) (ascii ''m2'')))
     = [Some (ascii ''Y'')]"
  using extract_resets_parser[of decimal_float id
          "fst (snd (extract_placemarks_from_kml decimal_float id \<lparr>placemarks = []\<rparr>
             (Document (example_document [example_placemark ''X'' ''1,2''])) (ascii ''m1'')))"
          "Document (example_document [example_placemark ''Y'' ''3,4''])" "ascii ''m2''"
          "\<lparr>placemarks = []\<rparr>"]
  by (simp add: model_defs)

section \<open>Facts about the merge\<close>

lemma index_primary_keys:
  "index_primary records keys = keys \<union> set (map folder_name_key records)"
  by (induction records arbitrary: keys) auto

lemma add_unless_primary_closed:
  "add_unless_primary keys records (out, added_count, skipped_count) =
     (out @ kept keys records, added_count + length (kept keys records),
      skipped_count + length (skipped keys records))"
  by (induction records arbitrary: out added_count skipped_count)
     (auto simp: kept_def skipped_def)

lemma extract_any_parser:
  "fst (extract_placemarks_from_kml flt charref self kml_file source_mid)
     = fst (extract_placemarks_from_kml flt charref \<lparr>placemarks = []\<rparr> kml_file source_mid)"
  by (cases kml_file) (simp_all add: extract_placemarks_from_kml_def)

lemma extract_messages:
  "snd (snd (extract_placemarks_from_kml flt charref self kml_file source_mid))
     = (case kml_file of Document d \<Rightarrow> [] | _ \<Rightarrow> [FileError])"
  by (cases kml_file) (simp_all add: extract_placemarks_from_kml_def)

lemma process_source_all:
  "all_placemarks (process_source flt charref i src st)
     = all_placemarks st
       @ (if i = 1 then source_records flt charref src
          else kept (primary_map_records st) (source_records flt charref src))"
proof (cases "fetched src")
  case NoDownload
  then show ?thesis by (simp add: process_source_def source_records_def kept_def)
next
  case (Downloaded f)
  obtain found p1 msgs where e:
    "extract_placemarks_from_kml flt charref (parser st) f (mid src) = (found, p1, msgs)"
    by (cases "extract_placemarks_from_kml flt charref (parser st) f (mid src)") auto
  then have "found = source_records flt charref src"
    using extract_any_parser[of flt charref "parser st" f "mid src"] Downloaded
    by (simp add: source_records_def)
  then show ?thesis using Downloaded e
    by (auto simp: process_source_def Let_def add_unless_primary_closed kept_def)
qed

lemma process_source_keys:
  "primary_map_records (process_source flt charref i src st)
     = (if i = 1
        then primary_map_records st
             \<union> set (map folder_name_key (source_records flt charref src :: 'f placemark list))
        else primary_map_records (st :: 'f merge_state))"
proof (cases "fetched src")
  case NoDownload
  then show ?thesis by (simp add: process_source_def source_records_def)
next
  case (Downloaded f)
  obtain found p1 msgs where e:
    "extract_placemarks_from_kml flt charref (parser st) f (mid src) = (found, p1, msgs)"
    by (cases "extract_placemarks_from_kml flt charref (parser st) f (mid src)") auto
  then have "found = source_records flt charref src"
    using extract_any_parser[of flt charref "parser st" f "mid src"] Downloaded
    by (simp add: source_records_def)
  then show ?thesis using Downloaded e
    by (auto simp: process_source_def Let_def add_unless_primary_closed index_primary_keys)
qed

lemma process_source_printed:
  "printed (process_source flt charref i src st)
     = printed st @ source_messages flt charref (primary_map_records st) (i = 1) src"
proof (cases "fetched src")
  case NoDownload
  then show ?thesis by (simp add: process_source_def source_messages_def)
next
  case (Downloaded f)
  obtain found p1 msgs where e:
    "extract_placemarks_from_kml flt charref (parser st) f (mid src) = (found, p1, msgs)"
    by (cases "extract_placemarks_from_kml flt charref (parser st) f (mid src)") auto
  then have "found = source_records flt charref src"
    using extract_any_parser[of flt charref "parser st" f "mid src"] Downloaded
    by (simp add: source_records_def)
  moreover have "msgs = (case f of Document d \<Rightarrow> [] | _ \<Rightarrow> [FileError])"
    using extract_messages[of flt charref "parser st" f "mid src"] e by simp
  ultimately show ?thesis using Downloaded e
    by (auto simp: process_source_def source_messages_def Let_def add_unless_primary_closed)
qed

lemma merge_loop_later:
  "1 < i \<Longrightarrow>
     all_placemarks (merge_loop flt charref i srcs st)
       = all_placemarks st
         @ concat (map (\<lambda>src. kept (primary_map_records st) (source_records flt charref src)) srcs)
     \<and> primary_map_records (merge_loop flt charref i srcs st) = primary_map_records st
     \<and> printed (merge_loop flt charref i srcs st)
       = printed st
         @ concat (map (source_messages flt charref (primary_map_records st) False) srcs)"
proof (induction srcs arbitrary: i st)
  case Nil
  then show ?case by simp
next
  case (Cons src srcs)
  have i: "i \<noteq> 1" "1 < i + 1" using Cons.prems by simp_all
  show ?case
    using Cons.IH[OF i(2), of "process_source flt charref i src st"] i(1)
    by (simp add: process_source_all process_source_keys process_source_printed)
qed

lemma merge_closed:
  "all_placemarks (download_multiple_maps_to_csv flt charref (primary # others))
     = source_records flt charref primary
       @ concat (map (\<lambda>src. kept (primary_keys flt charref (primary # others))
                              (source_records flt charref src)) others)
   \<and> primary_map_records (download_multiple_maps_to_csv flt charref (primary # others))
     = primary_keys flt charref (primary # others)
   \<and> printed (download_multiple_maps_to_csv flt charref (primary # others))
     = source_messages flt charref {} True primary
       @ concat (map (source_messages flt charref (primary_keys flt charref (primary # others))
                        False) others)"
proof -
  define st1 :: "'a merge_state" where "st1 = process_source flt charref 1 primary initial_state"
  have run: "download_multiple_maps_to_csv flt charref (primary # others)
      = merge_loop flt charref 2 others st1"
    by (simp add: download_multiple_maps_to_csv_def st1_def numeral_2_eq_2)
  have st1: "all_placemarks st1 = source_records flt charref primary"
    "primary_map_records st1 = primary_keys flt charref (primary # others)"
    "printed st1 = source_messages flt charref {} True primary"
    by (simp_all add: st1_def process_source_all process_source_keys process_source_printed
          primary_keys_def initial_state_def)
  show ?thesis
    unfolding run using merge_loop_later[of 2 flt charref others st1]
    by (simp add: st1)
qed

lemma kept_mem:
  "p \<in> set records \<Longrightarrow> folder_name_key p \<notin> keys \<Longrightarrow> p \<in> set (kept keys records)"
  by (simp add: kept_def)

lemma nth_le_sum_list:
  "i < length xs \<Longrightarrow> f (xs ! i) \<le> sum_list (map f xs :: nat list)"
  by (induction xs arbitrary: i) (auto simp: nth_Cons split: nat.splits intro: trans_le_add2)

lemma two_contributions:
  assumes "i < length xs" "j < length xs" "i \<noteq> j" "0 < f (xs ! i)" "0 < f (xs ! j)"
  shows "2 \<le> sum_list (map f xs :: nat list)"
  using assms
proof (induction xs arbitrary: i j)
  case Nil
  then show ?case by simp
next
  case (Cons x xs)
  show ?case
  proof (cases i)
    case i0: 0
    then obtain j' where j: "j = Suc j'" using Cons.prems(3) by (cases j) auto
    have "j' < length xs" using Cons.prems(2) j by simp
    then have "f (xs ! j') \<le> sum_list (map f xs)" by (rule nth_le_sum_list)
    moreover have "0 < f (xs ! j')" using Cons.prems(5) j by simp
    moreover have "0 < f x" using Cons.prems(4) i0 by simp
    ultimately show ?thesis by simp
  next
    case i: (Suc i')
    show ?thesis
    proof (cases j)
      case j0: 0
      have "i' < length xs" using Cons.prems(1) i by simp
      then have "f (xs ! i') \<le> sum_list (map f xs)" by (rule nth_le_sum_list)
      moreover have "0 < f (xs ! i')" using Cons.prems(4) i by simp
      moreover have "0 < f x" using Cons.prems(5) j0 by simp
      ultimately show ?thesis by simp
    next
      case j: (Suc j')
      have "i' < length xs" "j' < length xs" "i' \<noteq> j'"
        "0 < f (xs ! i')" "0 < f (xs ! j')"
        using Cons.prems i j by simp_all
      then have "2 \<le> sum_list (map f xs)" by (rule Cons.IH)
      then show ?thesis by simp
    qed
  qed
qed

lemma failed_source_records:
  "source_failed src \<Longrightarrow> source_records flt charref src = []"
  by (auto simp: source_failed_def source_records_def extract_placemarks_from_kml_def
           split: fetch.splits kml_file.splits)

lemma failed_source_messages:
  "source_failed src \<Longrightarrow>
     source_messages flt charref keys is_first src
       = (case fetched src of NoDownload \<Rightarrow> [DownloadFailed]
          | Downloaded f \<Rightarrow> [FileError, NoPlacemarkData])"
  by (auto simp: source_failed_def source_messages_def source_records_def
                 extract_placemarks_from_kml_def
           split: fetch.splits kml_file.splits)

lemma primary_keys_head:
  "primary_keys flt charref (primary # others) = primary_keys flt charref (primary # others')"
  by (simp add: primary_keys_def)

lemma run_nil:
  "all_placemarks (download_multiple_maps_to_csv flt charref []) = []"
  "printed (download_multiple_maps_to_csv flt charref []) = []"
  by (simp_all add: download_multiple_maps_to_csv_def initial_state_def)

section \<open>The merge against the primary source\<close>

text \<open>
  C1, as amended. In a merge run the first source is the primary one: its records are
  the head of the output and their identity keys (folder, name) are the identity-key
  set. For each record of each later source, in source order and then record order: if
  its key is in that set the record is discarded and counted as skipped, otherwise it
  is appended to the output and counted as added. The set is not changed by a later
  source: at the end it holds the keys of the primary source and nothing else.
\<close>

theorem merge_skips_against_primary_only:
  "all_placemarks (download_multiple_maps_to_csv flt charref (primary # others))
     = source_records flt charref primary
       @ concat (map (\<lambda>src. kept (primary_keys flt charref (primary # others))
                              (source_records flt charref src)) others)
   \<and> primary_map_records (download_multiple_maps_to_csv flt charref (primary # others))
     = primary_keys flt charref (primary # others)
   \<and> printed (download_multiple_maps_to_csv flt charref (primary # others))
     = source_messages flt charref {} True primary
       @ concat (map (source_messages flt charref (primary_keys flt charref (primary # others))
                        False) others)"
  by (rule merge_closed)

text \<open>
  The example of the specification: the primary source has X and Y, the second source
  X again and Z; the output has X, Y and Z, one record added and one skipped.
\<close>

theorem merge_skips_against_primary_only_witness:
  "map name (all_placemarks (download_multiple_maps_to_csv decimal_float id
      [example_source ''m1'' [example_placemark ''X'' ''1,2'', example_placemark ''Y'' ''3,4''],
       example_source ''m2'' [example_placemark ''X'' ''5,6'', example_placemark ''Z'' ''7,8'']]))
     = [Some (ascii ''X''), Some (ascii ''Y''), Some (ascii ''Z'')]
   \<and> printed (download_multiple_maps_to_csv decimal_float id
      [example_source ''m1'' [example_placemark ''X'' ''1,2'', example_placemark ''Y'' ''3,4''],
       example_source ''m2'' [example_placemark ''X'' ''5,6'', example_placemark ''Z'' ''7,8'']])
     = [PrimaryLoaded 2, Merged 2 1 1]
   \<and> primary_map_records (download_multiple_maps_to_csv decimal_float id
      [example_source ''m1'' [example_placemark ''X'' ''1,2'', example_placemark ''Y'' ''3,4''],
       example_source ''m2'' [example_placemark ''X'' ''5,6'', example_placemark ''Z'' ''7,8'']])
     = {(root_label, Some (ascii ''X'')), (root_label, Some (ascii ''Y''))}"
proof -
  have a: "source_records decimal_float id
       (example_source ''m1'' [example_placemark ''X'' ''1,2'', example_placemark ''Y'' ''3,4''])
     = [\<lparr>folder = root_label, name = Some (ascii ''X''), description = [],
          style_url = Some [], latitude = Some 2, longitude = Some 1, source = ascii ''m1''\<rparr>,
        \<lparr>folder = root_label, name = Some (ascii ''Y''), description = [],
          style_url = Some [], latitude = Some 4, longitude = Some 3, source = ascii ''m1''\<rparr>]"
    by (simp add: model_defs source_records_def)
  have b: "source_records decimal_float id
       (example_source ''m2'' [example_placemark ''X'' ''5,6'', example_placemark ''Z'' ''7,8''])
     = [\<lparr>folder = root_label, name = Some (ascii ''X''), description = [],
          style_url = Some [], latitude = Some 6, longitude = Some 5, source = ascii ''m2''\<rparr>,
        \<lparr>folder = root_label, name = Some (ascii ''Z''), description = [],
          style_url = Some [], latitude = Some 8, longitude = Some 7, source = ascii ''m2''\<rparr>]"
    by (simp add: model_defs source_records_def)
  have c: "fetched (example_source ''m1''
             [example_placemark ''X'' ''1,2'', example_placemark ''Y'' ''3,4''])
           = Downloaded (Document (example_document
               [example_placemark ''X'' ''1,2'', example_placemark ''Y'' ''3,4'']))"
    "fetched (example_source ''m2''
             [example_placemark ''X'' ''5,6'', example_placemark ''Z'' ''7,8''])
           = Downloaded (Document (example_document
               [example_placemark ''X'' ''5,6'', example_placemark ''Z'' ''7,8'']))"
    by (simp_all add: example_source_def)
  show ?thesis
    using merge_skips_against_primary_only
            [of decimal_float id
               "example_source ''m1'' [example_placemark ''X'' ''1,2'', example_placemark ''Y'' ''3,4'']"
               "[example_source ''m2'' [example_placemark ''X'' ''5,6'', example_placemark ''Z'' ''7,8'']]"]
    by (simp add: a b c primary_keys_def source_messages_def kept_def skipped_def
          folder_name_key_def root_label_def ascii_def insert_commute)
qed

text \<open>
  C1 as stated fails: the key of an appended record is not added to the set. The second
  and the third source both have a record b that the primary source does not have; the
  code appends both, the merge of the specification (\<open>spec_merge\<close>) only the first,
  and the set of the code holds the key of a alone.
\<close>

theorem merge_keeps_duplicate_among_secondaries:
  "map name (all_placemarks (download_multiple_maps_to_csv decimal_float id
      [example_source ''m1'' [example_placemark ''a'' ''1,2''],
       example_source ''m2'' [example_placemark ''b'' ''3,4''],
       example_source ''m3'' [example_placemark ''b'' ''5,6'']]))
     = [Some (ascii ''a''), Some (ascii ''b''), Some (ascii ''b'')]
   \<and> map name (spec_merge (map (source_records decimal_float id)
      [example_source ''m1'' [example_placemark ''a'' ''1,2''],
       example_source ''m2'' [example_placemark ''b'' ''3,4''],
       example_source ''m3'' [example_placemark ''b'' ''5,6'']]))
     = [Some (ascii ''a''), Some (ascii ''b'')]
   \<and> primary_map_records (download_multiple_maps_to_csv decimal_float id
      [example_source ''m1'' [example_placemark ''a'' ''1,2''],
       example_source ''m2'' [example_placemark ''b'' ''3,4''],
       example_source ''m3'' [example_placemark ''b'' ''5,6'']])
     = {(root_label, Some (ascii ''a''))}"
  by (simp add: model_defs source_records_def spec_merge_def)

section \<open>Later sources are not deduplicated against each other\<close>

text \<open>
  C2. Two records \<open>p\<close> and \<open>q\<close> of two different sources after the first, with the same
  identity key, a key that no record of the primary source has, are both in the merged
  output; the output holds at least two records with that key.
\<close>

theorem secondary_sources_not_deduplicated:
  assumes "i < length others" "j < length others" "i \<noteq> j"
    and "p \<in> set (source_records flt charref (others ! i))"
    and "q \<in> set (source_records flt charref (others ! j))"
    and "folder_name_key p = folder_name_key q"
    and "folder_name_key p \<notin> set (map folder_name_key (source_records flt charref primary))"
  shows "p \<in> set (all_placemarks (download_multiple_maps_to_csv flt charref (primary # others)))
    \<and> q \<in> set (all_placemarks (download_multiple_maps_to_csv flt charref (primary # others)))
    \<and> 2 \<le> length (filter (\<lambda>r. folder_name_key r = folder_name_key p)
              (all_placemarks (download_multiple_maps_to_csv flt charref (primary # others))))"
proof -
  let ?K = "primary_keys flt charref (primary # others)"
  let ?out = "all_placemarks (download_multiple_maps_to_csv flt charref (primary # others))"
  let ?same = "\<lambda>r :: 'a placemark. folder_name_key r = folder_name_key p"
  let ?f = "\<lambda>src. length (filter ?same (kept ?K (source_records flt charref src)))"
  have K: "folder_name_key p \<notin> ?K" "folder_name_key q \<notin> ?K"
    using assms(6,7) by (simp_all add: primary_keys_def)
  have out: "?out = source_records flt charref primary
       @ concat (map (\<lambda>src. kept ?K (source_records flt charref src)) others)"
    using merge_closed[of flt charref primary others] by simp
  have pk: "p \<in> set (kept ?K (source_records flt charref (others ! i)))"
    using assms(4) K(1) by (rule kept_mem)
  have qk: "q \<in> set (kept ?K (source_records flt charref (others ! j)))"
    using assms(5) K(2) by (rule kept_mem)
  have "p \<in> set ?out"
    unfolding out using pk assms(1) by (auto intro!: bexI[of _ "others ! i"])
  moreover have "q \<in> set ?out"
    unfolding out using qk assms(2) by (auto intro!: bexI[of _ "others ! j"])
  moreover have "2 \<le> length (filter ?same ?out)"
  proof -
    have "0 < ?f (others ! i)"
      using pk by (auto simp: filter_empty_conv)
    moreover have "0 < ?f (others ! j)"
      using qk assms(6) by (auto simp: filter_empty_conv)
    ultimately have "2 \<le> sum_list (map ?f others)"
      using two_contributions[of i others j ?f] assms(1-3) by blast
    moreover have "length (filter ?same (concat (map (\<lambda>src. kept ?K (source_records flt charref src)) others)))
        = sum_list (map ?f others)"
      by (simp add: filter_concat length_concat comp_def)
    ultimately show ?thesis unfolding out by simp
  qed
  ultimately show ?thesis by blast
qed

theorem secondary_sources_not_deduplicated_witness:
  "map name (all_placemarks (download_multiple_maps_to_csv decimal_float id
      [example_source ''m1'' [example_placemark ''a'' ''1,2''],
       example_source ''m2'' [example_placemark ''b'' ''3,4''],
       example_source ''m3'' [example_placemark ''b'' ''5,6'']]))
     = [Some (ascii ''a''), Some (ascii ''b''), Some (ascii ''b'')]
   \<and> 2 \<le> length (filter (\<lambda>r. folder_name_key r = (root_label, Some (ascii ''b'')))
       (all_placemarks (download_multiple_maps_to_csv decimal_float id
          [example_source ''m1'' [example_placemark ''a'' ''1,2''],
           example_source ''m2'' [example_placemark ''b'' ''3,4''],
           example_source ''m3'' [example_placemark ''b'' ''5,6'']])))"
proof -
  let ?p = "\<lparr>folder = root_label, name = Some (ascii ''b''), description = [],
          style_url = Some [], latitude = Some (4::rat), longitude = Some 3, source = ascii ''m2''\<rparr>"
  let ?q = "\<lparr>folder = root_label, name = Some (ascii ''b''), description = [],
          style_url = Some [], latitude = Some (6::rat), longitude = Some 5, source = ascii ''m3''\<rparr>"
  let ?others = "[example_source ''m2'' [example_placemark ''b'' ''3,4''],
                  example_source ''m3'' [example_placemark ''b'' ''5,6'']]"
  have a: "source_records decimal_float id (example_source ''m1'' [example_placemark ''a'' ''1,2''])
     = [\<lparr>folder = root_label, name = Some (ascii ''a''), description = [],
          style_url = Some [], latitude = Some 2, longitude = Some 1, source = ascii ''m1''\<rparr>]"
    by (simp add: model_defs source_records_def)
  have b: "source_records decimal_float id (?others ! 0) = [?p]"
    by (simp add: model_defs source_records_def)
  have c: "source_records decimal_float id (?others ! 1) = [?q]"
    by (simp add: model_defs source_records_def)
  have h: "(0::nat) < length ?others" "(1::nat) < length ?others" "(0::nat) \<noteq> 1"
    "?p \<in> set (source_records decimal_float id (?others ! 0))"
    "?q \<in> set (source_records decimal_float id (?others ! 1))"
    "folder_name_key ?p = folder_name_key ?q"
    "folder_name_key ?p \<notin> set (map folder_name_key
        (source_records decimal_float id (example_source ''m1'' [example_placemark ''a'' ''1,2''])))"
    unfolding a b c by (simp_all add: folder_name_key_def ascii_def)
  have k: "folder_name_key ?p = (root_label, Some (ascii ''b''))"
    by (simp add: folder_name_key_def)
  have n: "map name (all_placemarks (download_multiple_maps_to_csv decimal_float id
      [example_source ''m1'' [example_placemark ''a'' ''1,2''],
       example_source ''m2'' [example_placemark ''b'' ''3,4''],
       example_source ''m3'' [example_placemark ''b'' ''5,6'']]))
     = [Some (ascii ''a''), Some (ascii ''b''), Some (ascii ''b'')]"
    by (simp add: model_defs source_records_def)
  show ?thesis
    using secondary_sources_not_deduplicated[OF h] n unfolding k by simp
qed

section \<open>A source that fails\<close>

text \<open>
  A source whose download fails, or whose file is missing or not well-formed, has no
  records; in a run over \<open>before @ src # after\<close> it adds nothing to the output, its
  failure is printed, and the sources after it are processed. These are the failures
  the code handles.
\<close>

lemma handled_failure_contributes_nothing:
  assumes "source_failed src"
  shows "source_records flt charref src = []
    \<and> all_placemarks (download_multiple_maps_to_csv flt charref (before @ src # after))
      = all_placemarks (download_multiple_maps_to_csv flt charref before)
        @ concat (map (\<lambda>s. kept (primary_keys flt charref (before @ src # after))
                              (source_records flt charref s)) after)
    \<and> printed (download_multiple_maps_to_csv flt charref (before @ src # after))
      = printed (download_multiple_maps_to_csv flt charref before)
        @ (case fetched src of NoDownload \<Rightarrow> [DownloadFailed]
           | Downloaded f \<Rightarrow> [FileError, NoPlacemarkData])
        @ concat (map (source_messages flt charref
                         (primary_keys flt charref (before @ src # after)) False) after)"
proof (cases before)
  case Nil
  show ?thesis
    using merge_closed[of flt charref src after] assms
    by (simp add: Nil run_nil failed_source_records failed_source_messages)
next
  case (Cons primary bs)
  have K: "primary_keys flt charref (primary # bs @ src # after)
      = primary_keys flt charref (primary # bs)"
    by (rule primary_keys_head)
  show ?thesis
    using merge_closed[of flt charref primary "bs @ src # after"]
          merge_closed[of flt charref primary bs] assms
    by (simp add: Cons K failed_source_records failed_source_messages kept_def)
qed

text \<open>
  Where no entry raises an exception that is not caught, the run returns the state of
  the loop on the sources; where an entry does, the run raises at that entry and the
  entries after it are not processed.
\<close>

lemma merge_result_returns:
  "map (as_source charref) attempts = map Inr srcs \<Longrightarrow>
     merge_result flt charref i attempts st = Inr (merge_loop flt charref i srcs st)"
proof (induction attempts arbitrary: srcs i st)
  case Nil
  then show ?case by simp
next
  case (Cons a attempts)
  then obtain src rest where s: "srcs = src # rest" "as_source charref a = Inr src"
    "map (as_source charref) attempts = map Inr rest"
    by (cases srcs) auto
  show ?case using Cons.IH[OF s(3)] s(1,2) by simp
qed

lemma merge_result_raises:
  "map (as_source charref) before = map Inr srcs \<Longrightarrow> as_source charref a = Inl e \<Longrightarrow>
     merge_result flt charref i (before @ a # after) st = Inl e"
proof (induction before arbitrary: srcs i st)
  case Nil
  then show ?case by simp
next
  case (Cons b before)
  then obtain src rest where s: "srcs = src # rest" "as_source charref b = Inr src"
    "map (as_source charref) before = map Inr rest"
    by (cases srcs) auto
  show ?case using Cons.IH[OF s(3) Cons.prems(2)] s(2) by simp
qed

lemma example_attempt_source:
  "as_source id (example_attempt m [example_placemark n c]) = Inr (example_source m [example_placemark n c])"
  by (simp add: as_source_def example_attempt_def example_source_def top_leaves.simps
        description_raises_def clean_html_tags_result_def
        model_defs is_leaf_def is_container_def)

text \<open>
  C9 fails on the code where the failure of a source is an exception that the extractor
  does not catch. The second of three sources has a file for which \<^verbatim>\<open>ET.parse\<close> raises
  \<^verbatim>\<open>ValueError\<close>: the run raises \<^verbatim>\<open>ValueError\<close> and the third source is never
  processed. With \<^verbatim>\<open>ET.ParseError\<close> in its place the run goes on and the output has the
  records of the first and of the third source.
\<close>

theorem merge_aborts_on_uncaught_parse_exception:
  "download_multiple_maps_result decimal_float id
      [example_attempt ''m1'' [example_placemark ''a'' ''1,2''],
       Attempt (ascii ''m2'') (Some (Inl ValueError)),
       example_attempt ''m3'' [example_placemark ''b'' ''5,6'']]
     = Inl ValueError
   \<and> (case download_multiple_maps_result decimal_float id
             [example_attempt ''m1'' [example_placemark ''a'' ''1,2''],
              Attempt (ascii ''m2'') (Some (Inl ParseError)),
              example_attempt ''m3'' [example_placemark ''b'' ''5,6'']] of
         Inl e \<Rightarrow> []
       | Inr st \<Rightarrow> map name (all_placemarks st)) = [Some (ascii ''a''), Some (ascii ''b'')]"
proof -
  have v: "as_source id (Attempt (ascii ''m2'') (Some (Inl ValueError))) = Inl ValueError"
    by (simp add: as_source_def caught_def)
  have p: "as_source id (Attempt (ascii ''m2'') (Some (Inl ParseError)))
      = Inr \<lparr>mid = ascii ''m2'', fetched = Downloaded Malformed\<rparr>"
    by (simp add: as_source_def caught_def)
  have n: "map name (all_placemarks (download_multiple_maps_to_csv decimal_float id
        [example_source ''m1'' [example_placemark ''a'' ''1,2''],
         \<lparr>mid = ascii ''m2'', fetched = Downloaded Malformed\<rparr>,
         example_source ''m3'' [example_placemark ''b'' ''5,6'']]))
       = [Some (ascii ''a''), Some (ascii ''b'')]"
    by (simp add: model_defs)
  have 1: "download_multiple_maps_result decimal_float id
      [example_attempt ''m1'' [example_placemark ''a'' ''1,2''],
       Attempt (ascii ''m2'') (Some (Inl ValueError)),
       example_attempt ''m3'' [example_placemark ''b'' ''5,6'']]
     = (Inl ValueError :: exception + rat merge_state)"
    unfolding download_multiple_maps_result_def
    using merge_result_raises[of id "[example_attempt ''m1'' [example_placemark ''a'' ''1,2'']]"
            "[example_source ''m1'' [example_placemark ''a'' ''1,2'']]"
            "Attempt (ascii ''m2'') (Some (Inl ValueError))" ValueError decimal_float 1
            "[example_attempt ''m3'' [example_placemark ''b'' ''5,6'']]" initial_state]
    by (simp add: example_attempt_source v)
  have 2: "download_multiple_maps_result decimal_float id
             [example_attempt ''m1'' [example_placemark ''a'' ''1,2''],
              Attempt (ascii ''m2'') (Some (Inl ParseError)),
              example_attempt ''m3'' [example_placemark ''b'' ''5,6'']]
     = Inr (download_multiple_maps_to_csv decimal_float id
        [example_source ''m1'' [example_placemark ''a'' ''1,2''],
         \<lparr>mid = ascii ''m2'', fetched = Downloaded Malformed\<rparr>,
         example_source ''m3'' [example_placemark ''b'' ''5,6'']])"
    unfolding download_multiple_maps_result_def download_multiple_maps_to_csv_def
    by (rule merge_result_returns) (simp add: example_attempt_source p)
  show ?thesis unfolding 1 2 using n by simp
qed

section \<open>Facts about the sanitizer\<close>

lemma strip_rstrip: "strip s = rstrip (dropWhile isspace s)"
  by (simp add: strip_def rstrip_def)

lemma rstrip_eq_Nil: "rstrip s = [] \<longleftrightarrow> list_all isspace s"
  by (simp add: rstrip_def list_all_iff dropWhile_eq_Nil_conv)

lemma rstrip_append:
  "rstrip (a @ b) = (if list_all isspace b then rstrip a else a @ rstrip b)"
  by (auto simp: rstrip_def list_all_iff dropWhile_append)

lemma rstrip_no_space:
  "\<forall>x\<in>set w. \<not> isspace x \<Longrightarrow> rstrip w = w"
proof (cases "rev w")
  case Nil
  then show ?thesis by (simp add: rstrip_def)
next
  case (Cons x xs)
  assume "\<forall>x\<in>set w. \<not> isspace x"
  moreover have "x \<in> set w" using Cons by (metis list.set_intros(1) set_rev)
  ultimately have "\<not> isspace x" by simp
  then have "dropWhile isspace (rev w) = rev w" using Cons by simp
  then show ?thesis by (simp add: rstrip_def)
qed

lemma isspace_space [simp]: "isspace space"
  by (simp add: isspace_def space_def)

lemma words_of_dropWhile: "words_of (dropWhile isspace s) = words_of s"
  by (induction s) auto

lemma words_nonempty: "[] \<notin> set (words_of s)"
  by (induction s rule: words_of.induct) auto

lemma join_spaces_eq_Nil: "[] \<notin> set ws \<Longrightarrow> join_spaces ws = [] \<longleftrightarrow> ws = []"
  by (induction ws rule: join_spaces.induct) auto

lemma join_spaces_Cons:
  "join_spaces (w # ws) = (if ws = [] then w else w @ space # join_spaces ws)"
  by (cases ws) auto

lemma collapse_ws_no_space:
  "\<forall>x\<in>set a. \<not> isspace x \<Longrightarrow> collapse_ws (a @ r) = a @ collapse_ws r"
  by (induction a) auto

lemma collapse_ws_lead:
  "dropWhile isspace (collapse_ws (dropWhile isspace s)) = collapse_ws (dropWhile isspace s)"
proof (cases "dropWhile isspace s")
  case Nil
  show ?thesis unfolding Nil by simp
next
  case (Cons e es)
  then have "\<not> isspace e" using hd_dropWhile[of isspace s] by simp
  then show ?thesis unfolding Cons by simp
qed

lemma strip_collapse_dropWhile:
  "strip (collapse_ws (dropWhile isspace s)) = strip (collapse_ws s)"
proof (cases s)
  case Nil
  then show ?thesis by simp
next
  case (Cons c cs)
  show ?thesis
  proof (cases "isspace c")
    case True
    then show ?thesis using Cons by (simp add: strip_rstrip)
  next
    case False
    then show ?thesis using Cons by simp
  qed
qed


lemma rstrip_collapse_after_word:
  assumes "rest = [] \<or> isspace (hd rest)"
  shows "rstrip (collapse_ws rest)
     = (if strip (collapse_ws rest) = [] then [] else space # strip (collapse_ws rest))"
proof (cases rest)
  case Nil
  then show ?thesis by (simp add: rstrip_def)
next
  case (Cons d ds)
  then have d: "isspace d" using assms by simp
  define Z where "Z = collapse_ws (dropWhile isspace ds)"
  have c: "collapse_ws rest = space # Z" using Cons d by (simp add: Z_def)
  have lead: "dropWhile isspace Z = Z" unfolding Z_def by (rule collapse_ws_lead)
  have s: "strip (space # Z) = rstrip Z"
    by (simp add: strip_rstrip lead)
  show ?thesis
  proof (cases "list_all isspace Z")
    case True
    then have "rstrip Z = []" "rstrip (space # Z) = []"
      by (simp_all add: rstrip_eq_Nil)
    then show ?thesis unfolding c s by simp
  next
    case False
    then have "rstrip Z \<noteq> []" by (simp add: rstrip_eq_Nil)
    moreover have "rstrip (space # Z) = space # rstrip Z"
      using rstrip_append[of "[space]" Z] False by simp
    ultimately show ?thesis unfolding c s by simp
  qed
qed

lemma strip_collapse_words: "strip (collapse_ws s) = join_spaces (words_of s)"
proof (induction s rule: words_of.induct)
  case 1
  show ?case by simp
next
  case (2 c cs)
  show ?case
  proof (cases "isspace c")
    case True
    have "strip (collapse_ws (c # cs)) = strip (collapse_ws (dropWhile isspace cs))"
      using True by (simp add: strip_rstrip)
    also have "\<dots> = strip (collapse_ws cs)" by (rule strip_collapse_dropWhile)
    also have "\<dots> = join_spaces (words_of cs)" using "2.IH"(1)[OF True] .
    finally show ?thesis using True by simp
  next
    case False
    define w where "w = c # takeWhile (\<lambda>x. \<not> isspace x) cs"
    define rest where "rest = dropWhile (\<lambda>x. \<not> isspace x) cs"
    define Y where "Y = collapse_ws rest"
    have split: "c # cs = w @ rest" by (simp add: w_def rest_def)
    have wns: "\<forall>x\<in>set w. \<not> isspace x"
      using False by (auto simp: w_def dest: set_takeWhileD)
    have rest: "rest = [] \<or> isspace (hd rest)"
      using hd_dropWhile[of "\<lambda>x. \<not> isspace x" cs] by (auto simp: rest_def)
    have ih: "strip Y = join_spaces (words_of rest)"
      unfolding Y_def rest_def using "2.IH"(2)[OF False] .
    have "collapse_ws (c # cs) = w @ Y"
      unfolding split Y_def using wns by (rule collapse_ws_no_space)
    moreover have "dropWhile isspace (w @ Y) = w @ Y"
      using False by (simp add: w_def)
    ultimately have "strip (collapse_ws (c # cs)) = rstrip (w @ Y)"
      by (simp add: strip_rstrip)
    also have "\<dots> = (if list_all isspace Y then w else w @ rstrip Y)"
      by (simp add: rstrip_append rstrip_no_space[OF wns])
    also have "\<dots> = (if strip Y = [] then w else w @ space # strip Y)"
      using rstrip_collapse_after_word[OF rest] by (simp add: Y_def strip_eq_Nil)
    also have "\<dots> = join_spaces (w # words_of rest)"
      unfolding ih using join_spaces_eq_Nil[OF words_nonempty, of rest]
      by (simp add: join_spaces_Cons)
    finally show ?thesis using False by (simp add: w_def rest_def)
  qed
qed

lemma strip_tags_no_tag: "\<not> has_tag s \<Longrightarrow> strip_tags s = s"
  by (induction s) auto

lemma unwrap_cdata_no_cdata: "\<not> has_cdata s \<Longrightarrow> unwrap_cdata s = s"
  by (induction s) (auto split: option.splits)

lemma cdata_is_tag:
  assumes "prefix cdata_open (c # cs)" "find_close (drop (length cdata_open) (c # cs)) \<noteq> None"
  shows "c = lt \<and> takeWhile (\<lambda>x. x \<noteq> gt) cs \<noteq> [] \<and> dropWhile (\<lambda>x. x \<noteq> gt) cs \<noteq> []"
proof -
  obtain r where r: "c # cs = cdata_open @ r" using assms(1) by (auto simp: prefix_def)
  then have c: "c = lt" and cs: "cs = ascii ''![CDATA['' @ r"
    by (simp_all add: cdata_open_def ascii_def lt_def)
  have "find_close r \<noteq> None" using assms(2) r by simp
  moreover have "\<And>t. find_close t \<noteq> None \<Longrightarrow> gt \<in> set t"
  proof -
    fix t show "find_close t \<noteq> None \<Longrightarrow> gt \<in> set t"
      by (induction t) (auto simp: cdata_close_def ascii_def gt_def prefix_def split: if_splits option.splits)
  qed
  ultimately have "gt \<in> set r" by blast
  then have "gt \<in> set cs" using cs by simp
  then have "dropWhile (\<lambda>x. x \<noteq> gt) cs \<noteq> []"
    by (auto simp: dropWhile_eq_Nil_conv)
  moreover have "takeWhile (\<lambda>x. x \<noteq> gt) cs \<noteq> []"
    using cs by (simp add: ascii_def gt_def)
  ultimately show ?thesis using c by simp
qed

lemma has_cdata_has_tag: "has_cdata s \<Longrightarrow> has_tag s"
proof (induction s)
  case Nil
  then show ?case by simp
next
  case (Cons c cs)
  then show ?case using cdata_is_tag[of c cs] by auto
qed

lemma has_tag_iff:
  "has_tag s \<longleftrightarrow> (\<exists>a b c. s = a @ lt # b @ gt # c \<and> b \<noteq> [] \<and> gt \<notin> set b)"
proof
  show "has_tag s \<Longrightarrow> \<exists>a b c. s = a @ lt # b @ gt # c \<and> b \<noteq> [] \<and> gt \<notin> set b"
  proof (induction s)
    case Nil
    then show ?case by simp
  next
    case (Cons x xs)
    show ?case
    proof (cases "x = lt \<and> takeWhile (\<lambda>x. x \<noteq> gt) xs \<noteq> [] \<and> dropWhile (\<lambda>x. x \<noteq> gt) xs \<noteq> []")
      case True
      let ?b = "takeWhile (\<lambda>x. x \<noteq> gt) xs"
      let ?d = "dropWhile (\<lambda>x. x \<noteq> gt) xs"
      have "hd ?d = gt" using hd_dropWhile[of "\<lambda>x. x \<noteq> gt" xs] True by simp
      then have "?d = gt # tl ?d" using True by (cases ?d) auto
      then have "xs = ?b @ gt # tl ?d" by (metis takeWhile_dropWhile_id)
      then have "x # xs = [] @ lt # ?b @ gt # tl ?d" using True by simp
      moreover have "gt \<notin> set ?b" by (auto dest: set_takeWhileD)
      ultimately show ?thesis using True by blast
    next
      case False
      then have "has_tag xs" using Cons.prems by auto
      then obtain a b c where "xs = a @ lt # b @ gt # c" "b \<noteq> []" "gt \<notin> set b"
        using Cons.IH by blast
      then have "x # xs = (x # a) @ lt # b @ gt # c" by simp
      then show ?thesis using \<open>b \<noteq> []\<close> \<open>gt \<notin> set b\<close> by blast
    qed
  qed
next
  assume "\<exists>a b c. s = a @ lt # b @ gt # c \<and> b \<noteq> [] \<and> gt \<notin> set b"
  then obtain a b c where s: "s = a @ lt # b @ gt # c" and b: "b \<noteq> []" "gt \<notin> set b" by blast
  have t: "takeWhile (\<lambda>x. x \<noteq> gt) (b @ gt # c) = b"
    using b(2) by (induction b) auto
  have d: "dropWhile (\<lambda>x. x \<noteq> gt) (b @ gt # c) = gt # c"
    using b(2) by (induction b) auto
  have "has_tag (lt # b @ gt # c)" using b(1) t d by simp
  then show "has_tag s" unfolding s by (induction a) auto
qed

lemma find_close_first:
  "\<not> sublist cdata_close inner \<Longrightarrow>
     find_close (inner @ cdata_close @ post) = Some (inner, post)"
proof (induction inner)
  case Nil
  then show ?case by (simp add: cdata_close_def ascii_def)
next
  case (Cons c i)
  have ns: "\<not> sublist cdata_close i" "\<not> prefix cdata_close (c # i)"
    using Cons.prems by (simp_all add: sublist_Cons_right)
  have np: "\<not> prefix cdata_close (c # i @ cdata_close @ post)"
  proof (cases i)
    case Nil
    then show ?thesis by (simp add: cdata_close_def ascii_def)
  next
    case i1: (Cons a i')
    show ?thesis
    proof (cases i')
      case Nil
      then show ?thesis using i1 by (simp add: cdata_close_def ascii_def)
    next
      case (Cons b i'')
      then show ?thesis using i1 ns(2) by (simp add: cdata_close_def ascii_def)
    qed
  qed
  show ?case using np Cons.IH[OF ns(1)] by simp
qed

lemma unwrap_cdata_wrapper:
  assumes "\<not> sublist cdata_close inner"
  shows "unwrap_cdata (cdata_open @ inner @ cdata_close @ post) = inner @ unwrap_cdata post"
proof -
  obtain c cs where o: "cdata_open = c # cs" by (simp add: cdata_open_def ascii_def)
  have p: "prefix cdata_open (c # cs @ inner @ cdata_close @ post)"
    using o by (metis append_Cons prefixI)
  have d: "drop (length cdata_open) (c # cs @ inner @ cdata_close @ post)
      = inner @ cdata_close @ post"
    using o by (metis append_Cons append_eq_conv_conj)
  have "unwrap_cdata (c # cs @ inner @ cdata_close @ post) = inner @ unwrap_cdata post"
    using p d find_close_first[OF assms, of post] by simp
  then show ?thesis unfolding o append_Cons .
qed

lemma no_open_across:
  assumes "\<not> sublist cdata_open (c # p)"
  shows "\<not> prefix cdata_open (c # p @ cdata_open @ r)"
proof
  assume "prefix cdata_open (c # p @ cdata_open @ r)"
  then have "prefix cdata_open ((c # p) @ cdata_open @ r)" by simp
  then have "prefix cdata_open (c # p)
      \<or> (\<exists>us. cdata_open = (c # p) @ us \<and> prefix us (cdata_open @ r))"
    unfolding prefix_append .
  then show False
  proof
    assume "prefix cdata_open (c # p)"
    then show False using assms by (simp add: sublist_Cons_right)
  next
    assume "\<exists>us. cdata_open = (c # p) @ us \<and> prefix us (cdata_open @ r)"
    then obtain us where us: "cdata_open = (c # p) @ us" "prefix us (cdata_open @ r)" by blast
    show False
    proof (cases us)
      case Nil
      then have "prefix cdata_open (c # p)" using us(1) by simp
      then show False using assms by (simp add: sublist_Cons_right)
    next
      case (Cons u us')
      then have "u = lt" using us(2) by (simp add: cdata_open_def ascii_def lt_def)
      moreover have "tl cdata_open = p @ u # us'" using us(1) Cons
        by (metis append_Cons list.sel(3))
      then have "u \<in> set (tl cdata_open)" by simp
      ultimately show False by (simp add: cdata_open_def ascii_def lt_def)
    qed
  qed
qed

lemma unwrap_cdata_before:
  "\<not> sublist cdata_open pre \<Longrightarrow>
     unwrap_cdata (pre @ cdata_open @ r) = pre @ unwrap_cdata (cdata_open @ r)"
proof (induction pre)
  case Nil
  then show ?case by simp
next
  case (Cons c p)
  have "\<not> sublist cdata_open p" using Cons.prems by (simp add: sublist_Cons_right)
  then show ?case using no_open_across[OF Cons.prems, of r] Cons.IH by simp
qed

section \<open>Plain text through the sanitizer\<close>

lemma long_decimal_reference_amp: "long_decimal_reference s \<Longrightarrow> amp \<in> set s"
  by (induction s) auto

lemma unescape_result_returns:
  "unescape_result charref s = Inr t \<Longrightarrow> t = unescape charref s"
  by (auto simp: unescape_result_def unescape_def split: if_splits)

lemma unescape_result_raises:
  "(\<exists>e. unescape_result charref s = Inl e) = long_decimal_reference s"
  by (auto simp: unescape_result_def dest: long_decimal_reference_amp)

lemma clean_html_tags_result_returns:
  "clean_html_tags_result charref text = Inr v \<Longrightarrow> v = clean_html_tags charref text"
  by (auto simp: clean_html_tags_result_def clean_html_tags_def
           split: option.splits if_splits sum.splits dest: unescape_result_returns)

lemma clean_html_tags_result_raises:
  "(\<exists>e. clean_html_tags_result charref (Some s) = Inl e)
     = long_decimal_reference (strip_tags (unwrap_cdata s))"
proof (cases "s = []")
  case True
  then show ?thesis by (simp add: clean_html_tags_result_def)
next
  case False
  show ?thesis
    using unescape_result_raises[of charref "strip_tags (unwrap_cdata s)"] False
    by (auto simp: clean_html_tags_result_def split: sum.splits)
qed

lemma no_lt_no_tag: "lt \<notin> set s \<Longrightarrow> \<not> has_tag s"
  by (induction s) auto

lemma no_lt_unchanged: "lt \<notin> set s \<Longrightarrow> strip_tags (unwrap_cdata s) = s"
  using no_lt_no_tag has_cdata_has_tag unwrap_cdata_no_cdata strip_tags_no_tag by metis

text \<open>
  C8, as amended. For missing and for empty text the sanitizer returns the empty string.
  For a text with no match of the wrapper pattern and no match of the tag pattern of the
  code, which \<^verbatim>\<open>html.unescape\<close> returns as it is, it returns the words of the text joined
  by single spaces: every run of whitespace, newlines included, becomes one space, and
  whitespace at both ends is removed. It raises an exception exactly when the text left
  after unwrapping and tag removal holds a decimal reference of more than 4300 digits,
  and on every other text it returns, the string that \<open>clean_html_tags\<close> computes.
\<close>

theorem clean_html_tags_result_plain_text:
  "clean_html_tags_result charref None = Inr []
   \<and> clean_html_tags_result charref (Some []) = Inr []
   \<and> (\<not> has_cdata s \<and> \<not> has_tag s \<and> unescape_result charref s = Inr s
        \<longrightarrow> clean_html_tags_result charref (Some s) = Inr (join_spaces (words_of s)))
   \<and> ((\<exists>e. clean_html_tags_result charref (Some s) = Inl e)
        = long_decimal_reference (strip_tags (unwrap_cdata s)))
   \<and> (\<not> long_decimal_reference (strip_tags (unwrap_cdata s))
        \<longrightarrow> clean_html_tags_result charref (Some s) = Inr (clean_html_tags charref (Some s)))"
proof (intro conjI impI)
  assume "\<not> long_decimal_reference (strip_tags (unwrap_cdata s))"
  then have "\<not> (\<exists>e. clean_html_tags_result charref (Some s) = Inl e)"
    by (simp add: clean_html_tags_result_raises)
  then obtain v where v: "clean_html_tags_result charref (Some s) = Inr v"
    by (cases "clean_html_tags_result charref (Some s)") auto
  then show "clean_html_tags_result charref (Some s) = Inr (clean_html_tags charref (Some s))"
    using clean_html_tags_result_returns by blast
next
  show "clean_html_tags_result charref None = Inr []"
    by (simp add: clean_html_tags_result_def)
  show "clean_html_tags_result charref (Some []) = Inr []"
    by (simp add: clean_html_tags_result_def)
  show "(\<exists>e. clean_html_tags_result charref (Some s) = Inl e)
        = long_decimal_reference (strip_tags (unwrap_cdata s))"
    by (rule clean_html_tags_result_raises)
next
  assume h: "\<not> has_cdata s \<and> \<not> has_tag s \<and> unescape_result charref s = Inr s"
  then have "strip_tags (unwrap_cdata s) = s"
    by (simp add: unwrap_cdata_no_cdata strip_tags_no_tag)
  then show "clean_html_tags_result charref (Some s) = Inr (join_spaces (words_of s))"
    using h by (simp add: clean_html_tags_result_def strip_collapse_words)
qed

text \<open>
  The example of the specification, with a decoder that would destroy any text it is
  given: the text has no \<^verbatim>\<open>&\<close>, so \<^verbatim>\<open>html.unescape\<close> does not call it.
\<close>

theorem clean_html_tags_result_plain_text_witness:
  "clean_html_tags_result (\<lambda>s. []) (Some (ascii ''  hello   world  '')) = Inr (ascii ''hello world'')
   \<and> clean_html_tags_result (\<lambda>s. []) None = Inr []
   \<and> clean_html_tags_result (\<lambda>s. []) (Some []) = Inr []
   \<and> \<not> long_decimal_reference (strip_tags (unwrap_cdata (ascii ''  hello   world  '')))"
proof -
  have h: "\<not> has_cdata (ascii ''  hello   world  '') \<and> \<not> has_tag (ascii ''  hello   world  '')
      \<and> unescape_result (\<lambda>s. []) (ascii ''  hello   world  '') = Inr (ascii ''  hello   world  '')"
    by (simp add: model_defs unescape_result_def)
  have w: "join_spaces (words_of (ascii ''  hello   world  '')) = ascii ''hello world''"
    by (simp add: model_defs)
  show ?thesis
    using clean_html_tags_result_plain_text[of "\<lambda>s. []" "ascii ''  hello   world  ''"] h w
    by auto
qed

text \<open>
  C8 as stated fails: the sanitizer does fail on an input. On \<^verbatim>\<open>&#\<close> followed by 4301
  digits \<^verbatim>\<open>9\<close> the call of \<^verbatim>\<open>html.unescape\<close> raises \<^verbatim>\<open>ValueError\<close>, and nothing in
  \<^verbatim>\<open>clean_html_tags\<close> catches it.
\<close>

theorem clean_html_tags_raises_on_long_reference:
  "clean_html_tags_result id (Some (ascii ''&#'' @ replicate 4301 57)) = Inl ValueError"
proof -
  define x where "x = ascii ''&#'' @ replicate 4301 57"
  have "lt \<notin> set x"
    by (simp add: x_def ascii_def lt_def)
  then have u: "strip_tags (unwrap_cdata x) = x"
    by (rule no_lt_unchanged)
  have l: "long_decimal_reference x"
    by (simp add: x_def ascii_def amp_def hash_def int_max_str_digits_def isdigit_def)
  then have a: "amp \<in> set x"
    by (rule long_decimal_reference_amp)
  have n: "x \<noteq> []"
    by (simp add: x_def ascii_def)
  have "clean_html_tags_result id (Some x) = Inl ValueError"
    by (simp add: clean_html_tags_result_def n u unescape_result_def l a)
  then show ?thesis unfolding x_def .
qed

section \<open>Escaped-text wrappers\<close>

text \<open>
  C7, as amended. The sanitizer unwraps every escaped-text wrapper, not only one: for a
  text \<open>pre @ cdata_open @ inner @ cdata_close @ post\<close> in which \<open>pre\<close> holds no open
  marker and \<open>inner\<close> no close marker, the first step gives \<open>pre\<close>, then \<open>inner\<close>
  without its markers, then \<open>post\<close> with its own wrappers unwrapped in the same way;
  the result is not scanned again. Tags are removed and entities decoded after that.
\<close>

theorem clean_html_tags_unwraps_every_wrapper:
  assumes "\<not> sublist cdata_open pre" "\<not> sublist cdata_close inner"
  shows "unwrap_cdata (pre @ cdata_open @ inner @ cdata_close @ post)
           = pre @ inner @ unwrap_cdata post
    \<and> clean_html_tags charref (Some (pre @ cdata_open @ inner @ cdata_close @ post))
           = strip (collapse_ws (unescape charref (strip_tags (pre @ inner @ unwrap_cdata post))))"
proof -
  have "unwrap_cdata (pre @ cdata_open @ inner @ cdata_close @ post)
      = pre @ inner @ unwrap_cdata post"
    using unwrap_cdata_before[OF assms(1), of "inner @ cdata_close @ post"]
          unwrap_cdata_wrapper[OF assms(2), of post] by simp
  moreover have "cdata_open \<noteq> []"
    by (simp add: cdata_open_def ascii_def)
  ultimately show ?thesis by (simp add: clean_html_tags_def)
qed

theorem clean_html_tags_unwraps_every_wrapper_witness:
  "unwrap_cdata (ascii ''x <![CDATA[<b>a</b>]]><![CDATA[c]]>'') = ascii ''x <b>a</b>c''
   \<and> clean_html_tags id (Some (ascii ''x <![CDATA[<b>a</b>]]><![CDATA[c]]>'')) = ascii ''x ac''"
proof -
  have h: "\<not> sublist cdata_open (ascii ''x '')" "\<not> sublist cdata_close (ascii ''<b>a</b>'')"
    by (simp_all add: model_defs sublist_code)
  have e: "ascii ''x <![CDATA[<b>a</b>]]><![CDATA[c]]>''
      = ascii ''x '' @ cdata_open @ ascii ''<b>a</b>'' @ cdata_close @ ascii ''<![CDATA[c]]>''"
    by (simp add: model_defs)
  have p: "unwrap_cdata (ascii ''<![CDATA[c]]>'') = ascii ''c''"
    by (simp add: model_defs)
  have q: "strip (collapse_ws (unescape id (strip_tags (ascii ''x <b>a</b>c'')))) = ascii ''x ac''"
    by (simp add: model_defs)
  have r: "ascii ''x '' @ ascii ''<b>a</b>'' @ ascii ''c'' = ascii ''x <b>a</b>c''"
    by (simp add: model_defs)
  show ?thesis
    unfolding e
    using clean_html_tags_unwraps_every_wrapper[OF h, of "ascii ''<![CDATA[c]]>''" id]
    by (simp only: p q r simp_thms)
qed

text \<open>
  C7 as stated fails: of two wrappers the code unwraps both and returns \<^verbatim>\<open>ab\<close>. A
  sanitizer that unwraps exactly one wrapper leaves the second one to the tag pattern,
  which removes it whole, and returns \<^verbatim>\<open>a\<close>.
\<close>

theorem clean_html_tags_unwraps_second_wrapper:
  "clean_html_tags id (Some (ascii ''<![CDATA[a]]><![CDATA[b]]>'')) = ascii ''ab''
   \<and> spec_clean_html_tags id (Some (ascii ''<![CDATA[a]]><![CDATA[b]]>'')) = ascii ''a''"
  by (simp add: model_defs spec_clean_html_tags_def)

end
